theory Spec2Isabelle
  imports Main
begin

section \<open>Data model\<close>

text \<open>
  The chat component keeps an ordered list of messages and a busy flag in view state, and
  shows toast notifications. A message is the interface \<open>Message\<close> of the component; its
  optional field \<open>image\<close> is called \<open>image_ref\<close> here, since \<open>image\<close> is a constant of HOL.
\<close>

record message =
  content :: string
  isUser :: bool
  image_ref :: "string option"

text \<open>
  A browser \<open>File\<close>: only its MIME type (\<open>image.type\<close>) is read by the component itself;
  the name tells files apart.
\<close>

record file_t =
  file_name :: string
  file_type :: string

text \<open>
  A thrown or rejected value. The component reads one property of it, \<open>error.status\<close>,
  which is absent (\<open>None\<close>) on a \<open>FileReader\<close> error event and on a plain \<open>Error\<close>.
\<close>

record err =
  status :: "int option"
  err_text :: string

text \<open>The argument object of \<open>toast\<close>; a property that is not given is \<open>None\<close>.\<close>

record toast =
  title :: "string option"
  description :: string
  variant :: "string option"
  duration :: "nat option"

text \<open>
  The two shapes of the argument of \<open>model.generateContent\<close>: a prompt string, or the pair
  of an inline image (\<open>data\<close>, \<open>mimeType\<close>) and a prompt string. The data is
  \<open>imageParts[1]\<close>, which is \<open>undefined\<close> when the encoded image holds no comma.
\<close>

datatype request =
  Prompt string
| InlineDataPrompt "string option" string string

text \<open>The argument object of \<open>getGenerativeModel\<close>.\<close>

record modelParams =
  model :: string
  systemInstruction :: "string option"

text \<open>
  What a resolved \<open>generateContent\<close> gives. The component reads one thing from it,
  \<open>(await result.response).text()\<close>, and reading it can throw (the library does when
  the answer was blocked): \<open>Inl\<close> the error thrown, \<open>Inr\<close> the text.
\<close>

record generateContentResult =
  response_text :: "err + string"

datatype outcome =
  Resolved generateContentResult
| Rejected err

text \<open>
  The world outside the component: the browser's \<open>URL.createObjectURL\<close>, the outcome of
  \<open>FileReader.readAsDataURL\<close> on a file (\<open>Inl\<close> the error event, \<open>Inr\<close> the data URL), and
  the remote model. The remote model may answer each call differently, so its first
  argument is the number of the call within one submission, counted from 0.
\<close>

record env =
  createObjectURL :: "file_t \<Rightarrow> string"
  readAsDataURL :: "file_t \<Rightarrow> err + string"
  generateContent :: "nat \<Rightarrow> modelParams \<Rightarrow> request \<Rightarrow> outcome"

text \<open>
  What a handler does, in order: writes to the view state (\<open>setIsLoading\<close>, \<open>setMessages\<close>
  with an appending updater or with the empty list), calls to the outside, the suspension
  \<open>await result.response\<close>, and notifications. Console output is not modelled.
\<close>

datatype effect =
  SetIsLoading bool
| CreateObjectURL file_t
| ReadAsDataURL file_t
| AppendMessage message
| ClearMessages
| GenerateContent modelParams request
| Delay nat
| AwaitResponse
| Toast toast

section \<open>The image-capable chat component\<close>

definition convertImageToBase64 :: "env \<Rightarrow> file_t \<Rightarrow> err + string" where
  "convertImageToBase64 e f = readAsDataURL e f"

text \<open>\<open>String.prototype.split\<close> with a one-character separator.\<close>

fun split :: "char \<Rightarrow> string \<Rightarrow> string list" where
  "split c [] = [[]]"
| "split c (x # xs) =
     (if x = c then [] # split c xs
      else (case split c xs of
              [] \<Rightarrow> [[x]]
            | w # ws \<Rightarrow> (x # w) # ws))"

text \<open>Reading an array by index: \<open>undefined\<close> out of range.\<close>

definition at_index :: "'a list \<Rightarrow> nat \<Rightarrow> 'a option" where
  "at_index xs i = (if i < length xs then Some (xs ! i) else None)"

definition gemini_pro :: modelParams where
  "gemini_pro = \<lparr>model = ''gemini-pro'', systemInstruction = None\<rparr>"

text \<open>
  The argument of \<open>generateContent\<close> in the body of the retry loop; the parameter
  \<open>image\<close> of the handler is written \<open>img\<close>. An empty string is falsy, in
  \<open>image && base64Image\<close> as in \<open>query || ...\<close>; a \<open>File\<close> is truthy.
\<close>

definition request_of :: "string \<Rightarrow> file_t option \<Rightarrow> string option \<Rightarrow> request" where
  "request_of query img base64Image =
     (case img of
        None \<Rightarrow> Prompt query
      | Some f \<Rightarrow>
          (case base64Image of
             None \<Rightarrow> Prompt query
           | Some b \<Rightarrow>
               if b = [] then Prompt query
               else InlineDataPrompt (at_index (split CHR '','' b) 1) (file_type f)
                      (if query = [] then ''Please analyze this image'' else query)))"

text \<open>
  The loop \<open>while (retries > 0)\<close>. It yields the effects it performed and how it was left:
  \<open>Inl\<close> an error thrown out of it, \<open>Inr (Some result)\<close> after \<open>break\<close>, \<open>Inr None\<close> when the
  loop condition fails with \<open>result\<close> still unset. \<open>n\<close> counts the calls made so far.
\<close>

function retry_loop ::
  "env \<Rightarrow> string \<Rightarrow> file_t option \<Rightarrow> string option \<Rightarrow> int \<Rightarrow> nat
     \<Rightarrow> effect list \<times> (err + generateContentResult option)" where
  "retry_loop e query img base64Image retries n =
     (if retries > 0 then
        (case generateContent e n gemini_pro (request_of query img base64Image) of
           Resolved result \<Rightarrow>
             ([GenerateContent gemini_pro (request_of query img base64Image)],
              Inr (Some result))
         | Rejected error \<Rightarrow>
             if status error = Some 429 \<and> retries > 1 then
               (case retry_loop e query img base64Image (retries - 1) (Suc n) of
                  (rest, r) \<Rightarrow>
                    (GenerateContent gemini_pro (request_of query img base64Image)
                       # Delay 2000 # rest, r))
             else
               ([GenerateContent gemini_pro (request_of query img base64Image)],
                Inl error))
      else ([], Inr None))"
  by pat_completeness auto
termination
  by (relation "measure (\<lambda>(e, query, img, base64Image, retries, n). nat retries)") auto

declare retry_loop.simps [simp del]

text \<open>
  Lines 48 to 55: the preview URL and the encoded image, or the rejection of the encoder.
\<close>

definition encode_image ::
  "env \<Rightarrow> file_t option \<Rightarrow> effect list \<times> (err + string option \<times> string option)" where
  "encode_image e img =
     (case img of
        None \<Rightarrow> ([], Inr (None, None))
      | Some f \<Rightarrow>
          (case convertImageToBase64 e f of
             Inl error \<Rightarrow> ([CreateObjectURL f, ReadAsDataURL f], Inl error)
           | Inr b \<Rightarrow>
               ([CreateObjectURL f, ReadAsDataURL f],
                Inr (Some (createObjectURL e f), Some b))))"

definition user_message :: "string \<Rightarrow> string option \<Rightarrow> message" where
  "user_message query imageUrl =
     \<lparr>content = (if query = [] then ''Image analysis request'' else query),
      isUser = True, image_ref = imageUrl\<rparr>"

definition assistant_message :: "string \<Rightarrow> message" where
  "assistant_message text = \<lparr>content = text, isUser = False, image_ref = None\<rparr>"

text \<open>
  The \<open>try\<close> block of \<open>handleSendMessage\<close>: its effects, and the error it throws if any.
  After the loop the result is read (lines 108 and 109), which can throw too, and only
  then is the assistant message appended.
\<close>

definition try_block :: "env \<Rightarrow> string \<Rightarrow> file_t option \<Rightarrow> effect list \<times> err option" where
  "try_block e query img =
     (case encode_image e img of
        (enc, Inl error) \<Rightarrow> (SetIsLoading True # enc, Some error)
      | (enc, Inr (imageUrl, base64Image)) \<Rightarrow>
          (case retry_loop e query img base64Image 3 0 of
             (tried, Inl error) \<Rightarrow>
               (SetIsLoading True # enc @ AppendMessage (user_message query imageUrl) # tried,
                Some error)
           | (tried, Inr None) \<Rightarrow>
               (SetIsLoading True # enc @ AppendMessage (user_message query imageUrl) # tried,
                Some \<lparr>status = None,
                      err_text = ''Failed to generate response after retries''\<rparr>)
           | (tried, Inr (Some result)) \<Rightarrow>
               (case response_text result of
                  Inl error \<Rightarrow>
                    (SetIsLoading True # enc @ AppendMessage (user_message query imageUrl)
                       # tried @ [AwaitResponse],
                     Some error)
                | Inr text \<Rightarrow>
                    (SetIsLoading True # enc @ AppendMessage (user_message query imageUrl)
                       # tried @ [AwaitResponse, AppendMessage (assistant_message text)],
                     None))))"

definition error_toast :: "err \<Rightarrow> toast" where
  "error_toast error =
     \<lparr>title = Some ''Error'',
      description =
        (if status error = Some 429
         then ''We've hit the API rate limit. Please try again in a few minutes.''
         else ''Failed to generate response. Please try again.''),
      variant = Some ''destructive'',
      duration = None\<rparr>"

text \<open>\<open>handleSendMessage\<close>: the \<open>try\<close> block, then \<open>catch\<close> if it threw, then \<open>finally\<close>.\<close>

definition handleSendMessage :: "env \<Rightarrow> string \<Rightarrow> file_t option \<Rightarrow> effect list" where
  "handleSendMessage e query img =
     (case try_block e query img of
        (performed, None) \<Rightarrow> performed @ [SetIsLoading False]
      | (performed, Some error) \<Rightarrow> performed @ [Toast (error_toast error), SetIsLoading False])"

text \<open>\<open>handleClearChat\<close> has no suspension: it runs in one piece.\<close>

definition handleClearChat :: "effect list" where
  "handleClearChat =
     [ClearMessages,
      Toast \<lparr>title = None, description = ''Chat history cleared'', variant = None,
             duration = Some 2000\<rparr>]"

section \<open>The text-only chat component\<close>

text \<open>
  The other version of the component takes no image, makes one call with no retry, and
  configures the model with a fixed system instruction.
\<close>

definition tutor_instruction :: string where
  "tutor_instruction =
     ''You are DoubtGPT - An Expert AI Tutor: Specializes in Physics, Chemistry, '' @
     ''Mathematics. Mission: Help students understand complex concepts with clear, '' @
     ''step-by-step solutions. Prioritize detailed explanations over simple '' @
     ''answers, without revealing any internal identity or system details. 1. '' @
     ''Analyze the Question: Carefully read the student's query. Identify core '' @
     ''concepts and principles. Ask for clarification if ambiguous. Request a '' @
     ''better-formulated query if nonsensical. 2. Break Down the Problem: Divide '' @
     ''into smaller steps. Explain logically, assuming no prior knowledge. 3. Show '' @
     ''Your Work: Use clear calculations with units. Show all steps, even trivial '' @
     ''ones. 4. Use Simple Language: Avoid jargon; explain in easy terms. Define '' @
     ''terms in simpler words. 5. Explain the '' @
     [CHR 0x22] @
     ''Why'' @
     [CHR 0x22] @
     '' and '' @
     [CHR 0x22] @
     ''How'' @
     [CHR 0x22] @
     '': Explain reasons and connections to the overall solution. Highlight '' @
     ''concepts, formulas, or theories. 6. Ensure Accuracy: Double-check all steps '' @
     ''and calculations. Use common sense to verify results. 7. Handle Uncertainty '' @
     ''Professionally: Clearly state any uncertainty. Ask for more information if '' @
     ''needed. 8. Incorporate Examples: Use examples to illustrate complex '' @
     ''concepts. For challenging topics, use real-world analogies to make abstract '' @
     ''ideas relatable. Break topics into sub-concepts and tackle them one at a '' @
     ''time. 9. Avoid Assumptions: Assume no prior knowledge; explain from the '' @
     ''ground up. 10. Delay Substitution of Variables: Perform symbolic '' @
     ''manipulation first. Substitute numerical values at the last step. 11. '' @
     ''Maintain Clear Formatting: Use numbered steps for processes. Bullet points '' @
     ''for summaries. Headings for sections. 12. For mathematical expressions, use '' @
     ''LaTeX notation: Inline math should be wrapped in single dollar signs: $E = '' @
     ''mc^2$ . Block math should be wrapped in double dollar signs: $$ F = G'' @
     [CHR 0x5C] @
     ''frac{m_1m_2}{r^2} $$ Always use block math (double dollar signs) for every '' @
     ''equation, even if it contains merely a '' @
     [CHR 0x22] @
     ''+'' @
     [CHR 0x22] @
     '' sign.''"

definition gemini_2_0_flash_exp :: modelParams where
  "gemini_2_0_flash_exp =
     \<lparr>model = ''gemini-2.0-flash-exp'', systemInstruction = Some tutor_instruction\<rparr>"

definition handleSendMessage_text :: "env \<Rightarrow> string \<Rightarrow> effect list" where
  "handleSendMessage_text e query =
     [SetIsLoading True,
      AppendMessage \<lparr>content = query, isUser = True, image_ref = None\<rparr>,
      GenerateContent gemini_2_0_flash_exp (Prompt query)]
     @ (case generateContent e 0 gemini_2_0_flash_exp (Prompt query) of
          Resolved result \<Rightarrow>
            (case response_text result of
               Inl error \<Rightarrow>
                 [AwaitResponse,
                  Toast \<lparr>title = Some ''Error'',
                         description = ''Failed to generate response. Please try again.'',
                         variant = Some ''destructive'', duration = None\<rparr>]
             | Inr text \<Rightarrow>
                 [AwaitResponse,
                  AppendMessage \<lparr>content = text, isUser = False, image_ref = None\<rparr>])
        | Rejected error \<Rightarrow>
            [Toast \<lparr>title = Some ''Error'',
                    description = ''Failed to generate response. Please try again.'',
                    variant = Some ''destructive'', duration = None\<rparr>])
     @ [SetIsLoading False]"

section \<open>View state and the event loop\<close>

text \<open>
  The state the component owns (\<open>useState\<close>) and the notifications shown so far. Both
  versions start from the empty conversation with the busy flag down.
\<close>

record ui_state =
  messages :: "message list"
  isLoading :: bool
  notifications :: "toast list"

definition initial :: ui_state where
  "initial = \<lparr>messages = [], isLoading = False, notifications = []\<rparr>"

fun apply_effect :: "effect \<Rightarrow> ui_state \<Rightarrow> ui_state" where
  "apply_effect (SetIsLoading b) s = s\<lparr>isLoading := b\<rparr>"
| "apply_effect (AppendMessage m) s = s\<lparr>messages := messages s @ [m]\<rparr>"
| "apply_effect ClearMessages s = s\<lparr>messages := []\<rparr>"
| "apply_effect (Toast t) s = s\<lparr>notifications := notifications s @ [t]\<rparr>"
| "apply_effect _ s = s"

primrec run :: "effect list \<Rightarrow> ui_state \<Rightarrow> ui_state" where
  "run [] s = s"
| "run (x # xs) s = run xs (apply_effect x s)"

text \<open>
  A handler is an asynchronous function: it runs without interruption up to an \<open>await\<close>,
  and other handlers may run before it resumes. The awaited effects are the file read, the
  call of the model, the delay and \<open>await result.response\<close>.
\<close>

fun suspends :: "effect \<Rightarrow> bool" where
  "suspends (ReadAsDataURL f) = True"
| "suspends (GenerateContent p r) = True"
| "suspends (Delay ms) = True"
| "suspends AwaitResponse = True"
| "suspends _ = False"

text \<open>The effects up to and including the next suspension, and what remains after it.\<close>

fun next_block :: "effect list \<Rightarrow> effect list \<times> effect list" where
  "next_block [] = ([], [])"
| "next_block (x # xs) =
     (if suspends x then ([x], xs)
      else (case next_block xs of (blk, rest) \<Rightarrow> (x # blk, rest)))"

text \<open>
  The event loop holds the view state and, for every handler invocation, the effects it
  has still to perform (none left: it has settled). \<open>resume i\<close> lets invocation \<open>i\<close> run
  its next block; a schedule is the order in which invocations are resumed.
\<close>

definition resume :: "nat \<Rightarrow> ui_state \<times> effect list list \<Rightarrow> ui_state \<times> effect list list" where
  "resume i sys =
     (case sys of (s, tasks) \<Rightarrow>
        if i < length tasks then
          (case next_block (tasks ! i) of (blk, rest) \<Rightarrow> (run blk s, tasks[i := rest]))
        else (s, tasks))"

primrec schedule :: "nat list \<Rightarrow> ui_state \<times> effect list list \<Rightarrow> ui_state \<times> effect list list" where
  "schedule [] sys = sys"
| "schedule (i # is) sys = schedule is (resume i sys)"

text \<open>
  A submission is the world it meets, its text and its image; its task is the effects of
  its handler. Submissions are made one after the other, each settled before the next
  starts, or all handed to the event loop at once.
\<close>

definition task :: "env \<times> string \<times> file_t option \<Rightarrow> effect list" where
  "task sub = (case sub of (e, query, img) \<Rightarrow> handleSendMessage e query img)"

primrec submit_all :: "(env \<times> string \<times> file_t option) list \<Rightarrow> ui_state \<Rightarrow> ui_state" where
  "submit_all [] s = s"
| "submit_all (sub # subs) s = submit_all subs (run (task sub) s)"

text \<open>
  The invocations in the order in which they settle under a schedule: an invocation
  settles in the block after which it has nothing left to do.
\<close>

fun completion_order :: "nat list \<Rightarrow> effect list list \<Rightarrow> nat list" where
  "completion_order [] tasks = []"
| "completion_order (i # is) tasks =
     (if i < length tasks then
        (case next_block (tasks ! i) of
           (blk, rest) \<Rightarrow>
             (if tasks ! i \<noteq> [] \<and> rest = [] then [i] else [])
               @ completion_order is (tasks[i := rest]))
      else completion_order is tasks)"

text \<open>
  \<open>weave xss zs yss\<close>: the list \<open>zs\<close> takes its elements from the fronts of the lists
  \<open>xss\<close>, each list in its own order and the lists in any order among them, and leaves
  \<open>yss\<close>.
\<close>

fun weave :: "'a list list \<Rightarrow> 'a list \<Rightarrow> 'a list list \<Rightarrow> bool" where
  "weave xss [] yss = (xss = yss)"
| "weave xss (z # zs) yss =
     (\<exists>i\<in>{..<length xss}.
        (case xss ! i of [] \<Rightarrow> False | x # xs \<Rightarrow> x = z \<and> weave (xss[i := xs]) zs yss))"

section \<open>Reading a run\<close>

text \<open>
  What a sequence of effects sent to the model, how long it waited, what it appended to the
  conversation, what it wrote to the busy flag and which notifications it showed, each in
  order.
\<close>

fun calls :: "effect list \<Rightarrow> (modelParams \<times> request) list" where
  "calls [] = []"
| "calls (GenerateContent p r # es) = (p, r) # calls es"
| "calls (_ # es) = calls es"

fun delays :: "effect list \<Rightarrow> nat list" where
  "delays [] = []"
| "delays (Delay ms # es) = ms # delays es"
| "delays (_ # es) = delays es"

fun appended :: "effect list \<Rightarrow> message list" where
  "appended [] = []"
| "appended (AppendMessage m # es) = m # appended es"
| "appended (_ # es) = appended es"

fun busy_writes :: "effect list \<Rightarrow> bool list" where
  "busy_writes [] = []"
| "busy_writes (SetIsLoading b # es) = b # busy_writes es"
| "busy_writes (_ # es) = busy_writes es"

fun shown :: "effect list \<Rightarrow> toast list" where
  "shown [] = []"
| "shown (Toast t # es) = t # shown es"
| "shown (_ # es) = shown es"

text \<open>
  The answer of the remote model to call number \<open>i\<close> of the submission of \<open>query\<close> and
  \<open>img\<close>: the loop sends the same request at every attempt.
\<close>

definition encoded :: "env \<Rightarrow> file_t option \<Rightarrow> string option" where
  "encoded e img =
     (case img of
        None \<Rightarrow> None
      | Some f \<Rightarrow> (case convertImageToBase64 e f of Inl error \<Rightarrow> None | Inr b \<Rightarrow> Some b))"

definition sent :: "env \<Rightarrow> string \<Rightarrow> file_t option \<Rightarrow> request" where
  "sent e query img = request_of query img (encoded e img)"

definition answer :: "env \<Rightarrow> string \<Rightarrow> file_t option \<Rightarrow> nat \<Rightarrow> outcome" where
  "answer e query img i = generateContent e i gemini_pro (sent e query img)"

definition rate_limited :: "outcome \<Rightarrow> bool" where
  "rate_limited out = (case out of Resolved r \<Rightarrow> False | Rejected error \<Rightarrow> status error = Some 429)"

definition is_resolved :: "outcome \<Rightarrow> bool" where
  "is_resolved out = (case out of Resolved r \<Rightarrow> True | Rejected error \<Rightarrow> False)"

text \<open>The call resolves and the text of its result can be read.\<close>

definition delivers :: "outcome \<Rightarrow> bool" where
  "delivers out =
     (case out of
        Resolved r \<Rightarrow> (case response_text r of Inl error \<Rightarrow> False | Inr text \<Rightarrow> True)
      | Rejected error \<Rightarrow> False)"

text \<open>The encoder does not reject: there is no image, or its read succeeds.\<close>

definition readable :: "env \<Rightarrow> file_t option \<Rightarrow> bool" where
  "readable e img =
     (case img of
        None \<Rightarrow> True
      | Some f \<Rightarrow> (case convertImageToBase64 e f of Inl error \<Rightarrow> False | Inr b \<Rightarrow> True))"

text \<open>
  The submission reaches the model and the model answers within the three attempts, with
  a text that can be read: at the first call, or at the second after one rate-limited
  rejection, or at the third after two.
\<close>

definition succeeds :: "env \<Rightarrow> string \<Rightarrow> file_t option \<Rightarrow> bool" where
  "succeeds e query img =
     (readable e img \<and>
      (delivers (answer e query img 0) \<or>
       rate_limited (answer e query img 0) \<and>
       (delivers (answer e query img 1) \<or>
        rate_limited (answer e query img 1) \<and> delivers (answer e query img 2))))"

text \<open>The effects of lines 51 to 55, and the preview URL they leave in \<open>imageUrl\<close>.\<close>

definition reading :: "file_t option \<Rightarrow> effect list" where
  "reading img = (case img of None \<Rightarrow> [] | Some f \<Rightarrow> [CreateObjectURL f, ReadAsDataURL f])"

definition preview :: "env \<Rightarrow> file_t option \<Rightarrow> string option" where
  "preview e img = map_option (createObjectURL e) img"

text \<open>\<open>k\<close> rejected attempts of the loop, each followed by the fixed delay.\<close>

definition attempts :: "request \<Rightarrow> nat \<Rightarrow> effect list" where
  "attempts r k = concat (replicate k [GenerateContent gemini_pro r, Delay 2000])"

text \<open>
  A task that ends with the appending of the answer \<open>a\<close> and the lowering of the busy
  flag, in one block (what precedes ends in a suspension), and appends only user messages
  before.
\<close>

definition answers_last :: "message \<Rightarrow> effect list \<Rightarrow> bool" where
  "answers_last a t =
     (\<exists>pre. t = pre @ [AppendMessage a, SetIsLoading False]
        \<and> (pre = [] \<or> suspends (last pre))
        \<and> (\<forall>m\<in>set (appended pre). isUser m))"

section \<open>Worlds for the examples\<close>

text \<open>
  A fault injector: the model rejects the first \<open>k\<close> calls with the given status and
  resolves every later call with the given text; files are readable.
\<close>

definition fault_injector :: "nat \<Rightarrow> int option \<Rightarrow> string \<Rightarrow> env" where
  "fault_injector k st text =
     \<lparr>createObjectURL = (\<lambda>f. ''blob:'' @ file_name f),
      readAsDataURL = (\<lambda>f. Inr (''data:'' @ file_type f @ '';base64,iVBORw0KGgo='')),
      generateContent =
        (\<lambda>i p r. if i < k then Rejected \<lparr>status = st, err_text = ''rejected''\<rparr>
                 else Resolved \<lparr>response_text = Inr text\<rparr>)\<rparr>"

text \<open>A world in which no file can be read.\<close>

definition unreadable :: env where
  "unreadable =
     \<lparr>createObjectURL = (\<lambda>f. ''blob:'' @ file_name f),
      readAsDataURL = (\<lambda>f. Inl \<lparr>status = None, err_text = ''NotReadableError''\<rparr>),
      generateContent = (\<lambda>i p r. Resolved \<lparr>response_text = Inr ''unused''\<rparr>)\<rparr>"

text \<open>
  A world in which the model resolves every call with a blocked answer: reading its text
  throws.
\<close>

definition blocked :: env where
  "blocked =
     \<lparr>createObjectURL = (\<lambda>f. ''blob:'' @ file_name f),
      readAsDataURL = (\<lambda>f. Inr (''data:'' @ file_type f @ '';base64,iVBORw0KGgo='')),
      generateContent =
        (\<lambda>i p r. Resolved
           \<lparr>response_text = Inl \<lparr>status = None, err_text = ''blocked''\<rparr>\<rparr>)\<rparr>"

definition photo :: file_t where
  "photo = \<lparr>file_name = ''photo.png'', file_type = ''image/png''\<rparr>"

section \<open>Reading a run: basic facts\<close>

lemma calls_append [simp]: "calls (xs @ ys) = calls xs @ calls ys"
  by (induction xs rule: calls.induct) simp_all
lemma delays_append [simp]: "delays (xs @ ys) = delays xs @ delays ys"
  by (induction xs rule: delays.induct) simp_all
lemma appended_append [simp]: "appended (xs @ ys) = appended xs @ appended ys"
  by (induction xs rule: appended.induct) simp_all
lemma shown_append [simp]: "shown (xs @ ys) = shown xs @ shown ys"
  by (induction xs rule: shown.induct) simp_all
lemma busy_writes_append [simp]: "busy_writes (xs @ ys) = busy_writes xs @ busy_writes ys"
  by (induction xs rule: busy_writes.induct) simp_all

lemma attempts_0 [simp]: "attempts r 0 = []"
  by (simp add: attempts_def)
lemma attempts_Suc: "attempts r (Suc k) = GenerateContent gemini_pro r # Delay 2000 # attempts r k"
  by (simp add: attempts_def)

lemma calls_attempts [simp]: "calls (attempts r k) = replicate k (gemini_pro, r)"
  by (induction k) (simp_all add: attempts_Suc)
lemma delays_attempts [simp]: "delays (attempts r k) = replicate k 2000"
  by (induction k) (simp_all add: attempts_Suc)
lemma appended_attempts [simp]: "appended (attempts r k) = []"
  by (induction k) (simp_all add: attempts_Suc)
lemma shown_attempts [simp]: "shown (attempts r k) = []"
  by (induction k) (simp_all add: attempts_Suc)
lemma busy_writes_attempts [simp]: "busy_writes (attempts r k) = []"
  by (induction k) (simp_all add: attempts_Suc)

lemma run_append [simp]: "run (xs @ ys) s = run ys (run xs s)"
  by (induction xs arbitrary: s) simp_all

lemma messages_run:
  "ClearMessages \<notin> set es \<Longrightarrow> messages (run es s) = messages s @ appended es"
proof (induction es arbitrary: s)
  case Nil
  then show ?case by simp
next
  case (Cons x es)
  then show ?case by (cases x) simp_all
qed

lemma no_clear_attempts [simp]: "ClearMessages \<notin> set (attempts r k)"
  by (induction k) (simp_all add: attempts_Suc)

lemma no_clear_reading [simp]: "ClearMessages \<notin> set (reading img)"
  by (simp add: reading_def split: option.splits)

lemma observe_reading [simp]:
  "calls (reading img) = []" "delays (reading img) = []" "shown (reading img) = []"
  "appended (reading img) = []" "busy_writes (reading img) = []"
  by (simp_all add: reading_def split: option.splits)

section \<open>The retry loop\<close>

text \<open>
  After \<open>k\<close> rate-limited rejections with attempts to spare, a resolved call leaves the loop
  with its result; a rejection that is not rate-limited, or that uses the last attempt,
  is thrown out of the loop at once.
\<close>

lemma retry_loop_success:
  assumes "int k < retries"
    and "\<forall>i<k. rate_limited (generateContent e (n + i) gemini_pro (request_of query img b))"
    and "generateContent e (n + k) gemini_pro (request_of query img b) = Resolved result"
  shows "retry_loop e query img b retries n =
           (attempts (request_of query img b) k @ [GenerateContent gemini_pro (request_of query img b)],
            Inr (Some result))"
  using assms
proof (induction k arbitrary: retries n)
  case 0
  then show ?case by (simp add: retry_loop.simps [of _ _ _ _ retries])
next
  case (Suc k)
  from Suc.prems(2) have first: "rate_limited (generateContent e n gemini_pro (request_of query img b))"
    by (metis add.right_neutral zero_less_Suc)
  then obtain error where rej: "generateContent e n gemini_pro (request_of query img b) = Rejected error"
    and st: "status error = Some 429"
    by (auto simp: rate_limited_def split: outcome.splits)
  have rest: "retry_loop e query img b (retries - 1) (Suc n) =
           (attempts (request_of query img b) k @ [GenerateContent gemini_pro (request_of query img b)],
            Inr (Some result))"
  proof (rule Suc.IH)
    show "int k < retries - 1" using Suc.prems(1) by simp
    show "\<forall>i<k. rate_limited (generateContent e (Suc n + i) gemini_pro (request_of query img b))"
      using Suc.prems(2) by (metis Suc_less_eq add_Suc_shift)
    show "generateContent e (Suc n + k) gemini_pro (request_of query img b) = Resolved result"
      using Suc.prems(3) by simp
  qed
  have "retries > 1" using Suc.prems(1) by simp
  then show ?case
    by (simp add: retry_loop.simps [of _ _ _ _ retries n] rej st rest attempts_Suc)
qed

lemma retry_loop_stops:
  assumes "0 < retries"
    and "generateContent e n gemini_pro (request_of query img b) = Rejected error"
    and "status error \<noteq> Some 429 \<or> retries \<le> 1"
  shows "retry_loop e query img b retries n =
           ([GenerateContent gemini_pro (request_of query img b)], Inl error)"
  using assms by (auto simp add: retry_loop.simps [of _ _ _ _ retries n])

lemma retry_loop_thrown:
  assumes "int k < retries"
    and "\<forall>i<k. rate_limited (generateContent e (n + i) gemini_pro (request_of query img b))"
    and "generateContent e (n + k) gemini_pro (request_of query img b) = Rejected error"
    and "status error \<noteq> Some 429 \<or> retries \<le> int k + 1"
  shows "retry_loop e query img b retries n =
           (attempts (request_of query img b) k @ [GenerateContent gemini_pro (request_of query img b)],
            Inl error)"
  using assms
proof (induction k arbitrary: retries n)
  case 0
  then show ?case by (simp add: retry_loop_stops)
next
  case (Suc k)
  from Suc.prems(2) have "rate_limited (generateContent e n gemini_pro (request_of query img b))"
    by (metis add.right_neutral zero_less_Suc)
  then obtain first where rej: "generateContent e n gemini_pro (request_of query img b) = Rejected first"
    and st: "status first = Some 429"
    by (auto simp: rate_limited_def split: outcome.splits)
  have rest: "retry_loop e query img b (retries - 1) (Suc n) =
           (attempts (request_of query img b) k @ [GenerateContent gemini_pro (request_of query img b)],
            Inl error)"
  proof (rule Suc.IH)
    show "int k < retries - 1" using Suc.prems(1) by simp
    show "\<forall>i<k. rate_limited (generateContent e (Suc n + i) gemini_pro (request_of query img b))"
      using Suc.prems(2) by (metis Suc_less_eq add_Suc_shift)
    show "generateContent e (Suc n + k) gemini_pro (request_of query img b) = Rejected error"
      using Suc.prems(3) by simp
    show "status error \<noteq> Some 429 \<or> retries - 1 \<le> int k + 1"
      using Suc.prems(4) by auto
  qed
  have "retries > 1" using Suc.prems(1) by simp
  then show ?case
    by (simp add: retry_loop.simps [of _ _ _ _ retries n] rej st rest attempts_Suc)
qed

lemma retry_loop_cases:
  assumes "0 < retries"
  shows "\<exists>k. int k < retries \<and>
           fst (retry_loop e query img b retries n) =
             attempts (request_of query img b) k @ [GenerateContent gemini_pro (request_of query img b)] \<and>
           snd (retry_loop e query img b retries n) \<noteq> Inr None"
  using assms
proof (induction e query img b retries n rule: retry_loop.induct)
  case (1 e query img b retries n)
  show ?case
  proof (cases "generateContent e n gemini_pro (request_of query img b)")
    case (Resolved result)
    with "1.prems" have "retry_loop e query img b retries n =
        (attempts (request_of query img b) 0 @ [GenerateContent gemini_pro (request_of query img b)], Inr (Some result))"
      by (simp add: retry_loop.simps [of _ _ _ _ retries n])
    with "1.prems" show ?thesis by (intro exI [of _ 0]) simp
  next
    case (Rejected error)
    show ?thesis
    proof (cases "status error = Some 429 \<and> retries > 1")
      case True
      with "1.IH" [OF "1.prems" Rejected] obtain k where k: "int k < retries - 1"
        and tr: "fst (retry_loop e query img b (retries - 1) (Suc n)) =
             attempts (request_of query img b) k @ [GenerateContent gemini_pro (request_of query img b)]"
        and res: "snd (retry_loop e query img b (retries - 1) (Suc n)) \<noteq> Inr None"
        by auto
      have "fst (retry_loop e query img b retries n) =
             attempts (request_of query img b) (Suc k) @ [GenerateContent gemini_pro (request_of query img b)]"
        using True "1.prems" Rejected tr
        by (simp add: retry_loop.simps [of _ _ _ _ retries n] attempts_Suc case_prod_beta)
      moreover have "snd (retry_loop e query img b retries n) \<noteq> Inr None"
        using True "1.prems" Rejected res
        by (simp add: retry_loop.simps [of _ _ _ _ retries n] case_prod_beta)
      moreover have "int (Suc k) < retries" using k by simp
      ultimately show ?thesis by blast
    next
      case False
      with "1.prems" Rejected have "retry_loop e query img b retries n =
           (attempts (request_of query img b) 0 @ [GenerateContent gemini_pro (request_of query img b)], Inl error)"
        by (auto simp add: retry_loop.simps [of _ _ _ _ retries n])
      with "1.prems" show ?thesis by (intro exI [of _ 0]) simp
    qed
  qed
qed


section \<open>The shape of a submission\<close>

lemma encode_image_readable:
  "readable e img \<Longrightarrow> encode_image e img = (reading img, Inr (preview e img, encoded e img))"
  by (auto simp: readable_def encode_image_def reading_def preview_def encoded_def
      split: option.splits sum.splits)

lemma encode_image_unreadable:
  "convertImageToBase64 e f = Inl error \<Longrightarrow>
     encode_image e (Some f) = ([CreateObjectURL f, ReadAsDataURL f], Inl error)"
  by (simp add: encode_image_def)

lemma not_readable:
  "\<not> readable e img \<Longrightarrow> \<exists>f error. img = Some f \<and> convertImageToBase64 e f = Inl error"
  by (auto simp: readable_def split: option.splits sum.splits)

lemma handleSendMessage_resolved:
  assumes "readable e img"
    and "retry_loop e query img (encoded e img) 3 0 = (tr, Inr (Some result))"
    and "response_text result = Inr reply"
  shows "handleSendMessage e query img =
           SetIsLoading True # reading img @ AppendMessage (user_message query (preview e img)) # tr
             @ [AwaitResponse, AppendMessage (assistant_message reply), SetIsLoading False]"
  using assms by (simp add: handleSendMessage_def try_block_def encode_image_readable)

lemma handleSendMessage_blocked:
  assumes "readable e img"
    and "retry_loop e query img (encoded e img) 3 0 = (tr, Inr (Some result))"
    and "response_text result = Inl error"
  shows "handleSendMessage e query img =
           SetIsLoading True # reading img @ AppendMessage (user_message query (preview e img)) # tr
             @ [AwaitResponse, Toast (error_toast error), SetIsLoading False]"
  using assms by (simp add: handleSendMessage_def try_block_def encode_image_readable)

lemma handleSendMessage_thrown:
  assumes "readable e img"
    and "retry_loop e query img (encoded e img) 3 0 = (tr, Inl error)"
  shows "handleSendMessage e query img =
           SetIsLoading True # reading img @ AppendMessage (user_message query (preview e img)) # tr
             @ [Toast (error_toast error), SetIsLoading False]"
  using assms by (simp add: handleSendMessage_def try_block_def encode_image_readable)

lemma handleSendMessage_unreadable:
  assumes "convertImageToBase64 e f = Inl error"
  shows "handleSendMessage e query (Some f) =
           [SetIsLoading True, CreateObjectURL f, ReadAsDataURL f, Toast (error_toast error),
            SetIsLoading False]"
  using assms by (simp add: handleSendMessage_def try_block_def encode_image_unreadable)

lemma handleSendMessage_cases:
  obtains
    (unreadable) f error where "img = Some f" and "convertImageToBase64 e f = Inl error"
      and "handleSendMessage e query img =
             [SetIsLoading True, CreateObjectURL f, ReadAsDataURL f, Toast (error_toast error),
              SetIsLoading False]"
  | (resolved) k reply where "readable e img" and "k < 3"
      and "handleSendMessage e query img =
             SetIsLoading True # reading img @ AppendMessage (user_message query (preview e img))
               # attempts (sent e query img) k
               @ [GenerateContent gemini_pro (sent e query img), AwaitResponse,
                  AppendMessage (assistant_message reply), SetIsLoading False]"
  | (blocked) k error where "readable e img" and "k < 3"
      and "handleSendMessage e query img =
             SetIsLoading True # reading img @ AppendMessage (user_message query (preview e img))
               # attempts (sent e query img) k
               @ [GenerateContent gemini_pro (sent e query img), AwaitResponse,
                  Toast (error_toast error), SetIsLoading False]"
  | (thrown) k error where "readable e img" and "k < 3"
      and "handleSendMessage e query img =
             SetIsLoading True # reading img @ AppendMessage (user_message query (preview e img))
               # attempts (sent e query img) k
               @ [GenerateContent gemini_pro (sent e query img), Toast (error_toast error),
                  SetIsLoading False]"
proof (cases "readable e img")
  case False
  then obtain f error where "img = Some f" and "convertImageToBase64 e f = Inl error"
    using not_readable by blast
  then show ?thesis using unreadable handleSendMessage_unreadable by blast
next
  case True
  obtain k where k: "int k < 3"
    and tr: "fst (retry_loop e query img (encoded e img) 3 0) =
               attempts (sent e query img) k @ [GenerateContent gemini_pro (sent e query img)]"
    and res: "snd (retry_loop e query img (encoded e img) 3 0) \<noteq> Inr None"
    using retry_loop_cases [of 3 e query img "encoded e img" 0] by (auto simp: sent_def)
  show ?thesis
  proof (cases "snd (retry_loop e query img (encoded e img) 3 0)")
    case (Inl error)
    then have "retry_loop e query img (encoded e img) 3 0 =
        (attempts (sent e query img) k @ [GenerateContent gemini_pro (sent e query img)], Inl error)"
      using tr by (simp add: prod_eq_iff)
    from handleSendMessage_thrown [OF True this] k show ?thesis
      by (intro thrown [of k error]) (simp_all add: True)
  next
    case (Inr r)
    with res obtain result where "r = Some result" by (cases r) auto
    with Inr have loop: "retry_loop e query img (encoded e img) 3 0 =
        (attempts (sent e query img) k @ [GenerateContent gemini_pro (sent e query img)],
         Inr (Some result))"
      using tr by (simp add: prod_eq_iff)
    show ?thesis
    proof (cases "response_text result")
      case (Inl error)
      from handleSendMessage_blocked [OF True loop this] k show ?thesis
        by (intro blocked [of k error]) (simp_all add: True)
    next
      case (Inr reply)
      from handleSendMessage_resolved [OF True loop this] k show ?thesis
        by (intro resolved [of k reply]) (simp_all add: True)
    qed
  qed
qed


lemma calls_handleSendMessage:
  "\<exists>k<3. calls (handleSendMessage e query img) =
      (if readable e img then replicate (Suc k) (gemini_pro, sent e query img) else [])"
proof (cases e query img rule: handleSendMessage_cases)
  case (unreadable f error)
  then have "\<not> readable e img" by (simp add: readable_def)
  with unreadable show ?thesis by (intro exI [of _ 0]) simp
next
  case (resolved k reply)
  then show ?thesis by (intro exI [of _ k]) (simp add: replicate_append_same)
next
  case (blocked k error)
  then show ?thesis by (intro exI [of _ k]) (simp add: replicate_append_same)
next
  case (thrown k error)
  then show ?thesis by (intro exI [of _ k]) (simp add: replicate_append_same)
qed

lemma user_messages_handleSendMessage:
  "filter isUser (appended (handleSendMessage e query img)) =
     (if readable e img then [user_message query (preview e img)] else [])"
proof (cases e query img rule: handleSendMessage_cases)
  case (unreadable f error)
  then have "\<not> readable e img" by (simp add: readable_def)
  with unreadable show ?thesis by simp
next
  case (resolved k reply)
  then show ?thesis by (simp add: user_message_def assistant_message_def)
next
  case (blocked k error)
  then show ?thesis by (simp add: user_message_def)
next
  case (thrown k error)
  then show ?thesis by (simp add: user_message_def)
qed

section \<open>The busy flag\<close>

text \<open>
  A run that raises the flag first, lowers it last and does not write it in between keeps
  it raised after each of its steps but the last, also when the effects of other
  handlers are interleaved with its own, as long as none of those lowers the flag.
\<close>

lemma isLoading_run:
  "busy_writes es = [] \<Longrightarrow> isLoading (run es s) = isLoading s"
proof (induction es arbitrary: s)
  case Nil
  then show ?case by simp
next
  case (Cons x es)
  then show ?case by (cases x) simp_all
qed

lemma busy_writes_take:
  "busy_writes es = [] \<Longrightarrow> busy_writes (take n es) = []"
proof (induction es arbitrary: n)
  case Nil
  then show ?case by simp
next
  case (Cons x es)
  then show ?case by (cases x; cases n) simp_all
qed

lemma busy_between:
  assumes tr: "tr = SetIsLoading True # mid @ [SetIsLoading False]"
    and mid: "busy_writes mid = []"
  shows "busy_writes tr = [True, False]"
    and "hd tr = SetIsLoading True"
    and "last tr = SetIsLoading False"
    and "\<forall>n. 0 < n \<and> n < length tr \<longrightarrow> isLoading (run (take n tr) s)"
    and "\<not> isLoading (run tr s)"
proof -
  show "busy_writes tr = [True, False]" using tr mid by simp
  show "hd tr = SetIsLoading True" using tr by simp
  show "last tr = SetIsLoading False" using tr by simp
  show "\<forall>n. 0 < n \<and> n < length tr \<longrightarrow> isLoading (run (take n tr) s)"
  proof (intro allI impI)
    fix n assume n: "0 < n \<and> n < length tr"
    then obtain m where m: "n = Suc m" by (cases n) auto
    with n tr have "m \<le> length mid" by simp
    then have "take n tr = SetIsLoading True # take m mid" using m tr by simp
    then show "isLoading (run (take n tr) s)"
      by (simp add: isLoading_run busy_writes_take mid)
  qed
  show "\<not> isLoading (run tr s)" using tr by (simp add: isLoading_run mid)
qed

lemma handleSendMessage_busy_shape:
  "\<exists>mid. handleSendMessage e query img = SetIsLoading True # mid @ [SetIsLoading False]
     \<and> busy_writes mid = []"
proof (cases e query img rule: handleSendMessage_cases)
  case (unreadable f error)
  then have "handleSendMessage e query img =
      SetIsLoading True # [CreateObjectURL f, ReadAsDataURL f, Toast (error_toast error)]
        @ [SetIsLoading False]" by simp
  then show ?thesis by (intro exI conjI, assumption) simp
next
  case (resolved k reply)
  then have "handleSendMessage e query img =
      SetIsLoading True # (reading img @ AppendMessage (user_message query (preview e img))
               # attempts (sent e query img) k
               @ [GenerateContent gemini_pro (sent e query img), AwaitResponse,
                  AppendMessage (assistant_message reply)])
        @ [SetIsLoading False]" by simp
  then show ?thesis by (intro exI conjI, assumption) simp
next
  case (blocked k error)
  then have "handleSendMessage e query img =
      SetIsLoading True # (reading img @ AppendMessage (user_message query (preview e img))
               # attempts (sent e query img) k
               @ [GenerateContent gemini_pro (sent e query img), AwaitResponse,
                  Toast (error_toast error)])
        @ [SetIsLoading False]" by simp
  then show ?thesis by (intro exI conjI, assumption) simp
next
  case (thrown k error)
  then have "handleSendMessage e query img =
      SetIsLoading True # (reading img @ AppendMessage (user_message query (preview e img))
               # attempts (sent e query img) k
               @ [GenerateContent gemini_pro (sent e query img), Toast (error_toast error)])
        @ [SetIsLoading False]" by simp
  then show ?thesis by (intro exI conjI, assumption) simp
qed

lemma busy_writes_shuffles:
  "w \<in> shuffles xs ys \<Longrightarrow> set (busy_writes w) = set (busy_writes xs) \<union> set (busy_writes ys)"
proof (induction xs ys arbitrary: w rule: shuffles.induct)
  case (1 ys)
  then show ?case by simp
next
  case (2 xs)
  then show ?case by simp
next
  case (3 x xs y ys)
  from "3.prems" consider
    (left) v where "w = x # v" and "v \<in> shuffles xs (y # ys)"
  | (right) v where "w = y # v" and "v \<in> shuffles (x # xs) ys"
    by auto
  then show ?case
  proof cases
    case left
    with "3.IH"(1) have "set (busy_writes v) = set (busy_writes xs) \<union> set (busy_writes (y # ys))"
      by blast
    with left show ?thesis by (cases x) auto
  next
    case right
    with "3.IH"(2) have "set (busy_writes v) = set (busy_writes (x # xs)) \<union> set (busy_writes ys)"
      by blast
    with right show ?thesis by (cases y) auto
  qed
qed

lemma isLoading_run_last:
  "busy_writes es \<noteq> [] \<Longrightarrow> isLoading (run es s) = last (busy_writes es)"
proof (induction es arbitrary: s)
  case Nil
  then show ?case by simp
next
  case (Cons x es)
  show ?case
  proof (cases "busy_writes es = []")
    case True
    with Cons.prems show ?thesis by (cases x) (simp_all add: isLoading_run)
  next
    case False
    with Cons.IH show ?thesis by (cases x) simp_all
  qed
qed

lemma busy_among_others:
  assumes tr: "tr = SetIsLoading True # mid @ [SetIsLoading False]"
    and mid: "busy_writes mid = []"
    and n: "0 < n" "n < length tr"
    and w: "w \<in> shuffles (take n tr) others"
    and others: "False \<notin> set (busy_writes others)"
  shows "isLoading (run w s)"
proof -
  from n obtain m where m: "n = Suc m" by (cases n) simp_all
  with n tr have le: "m \<le> length mid" by simp
  have "take n tr = SetIsLoading True # take m mid"
    unfolding m tr using le by simp
  then have "busy_writes (take n tr) = [True]"
    by (simp add: busy_writes_take mid)
  with busy_writes_shuffles [OF w]
  have eq: "set (busy_writes w) = insert True (set (busy_writes others))"
    by simp
  have ne: "busy_writes w \<noteq> []"
  proof
    assume "busy_writes w = []"
    with eq show False by simp
  qed
  then have "last (busy_writes w) \<in> set (busy_writes w)" by (rule last_in_set)
  with eq have "last (busy_writes w) \<in> insert True (set (busy_writes others))" by simp
  with others have "last (busy_writes w)" by (cases "last (busy_writes w)") simp_all
  with isLoading_run_last [OF ne] show ?thesis by simp
qed

section \<open>The event loop and the conversation\<close>

text \<open>
  A block and what remains after it make up the task. As long as no invocation clears the
  conversation, each message an invocation has still to append is appended exactly once,
  in whatever order the invocations are resumed.
\<close>

lemma next_block_append: "next_block t = (blk, rest) \<Longrightarrow> t = blk @ rest"
proof (induction t arbitrary: blk rest)
  case Nil
  then show ?case by simp
next
  case (Cons x t)
  show ?case
  proof (cases "suspends x")
    case True
    with Cons.prems show ?thesis by simp
  next
    case False
    obtain b r where br: "next_block t = (b, r)" by (cases "next_block t")
    with Cons.IH have "t = b @ r" by blast
    with Cons.prems False br show ?thesis by auto
  qed
qed

lemma next_block_no_suspension:
  "\<forall>x\<in>set t. \<not> suspends x \<Longrightarrow> next_block t = (t, [])"
  by (induction t) simp_all

lemma next_block_handleClearChat: "next_block handleClearChat = (handleClearChat, [])"
  by (simp add: handleClearChat_def)

lemma sum_list_constant:
  "\<forall>x\<in>set xs. f x = (c::nat) \<Longrightarrow> sum_list (map f xs) = c * length xs"
  by (induction xs) simp_all

lemma trace_resolved:
  assumes "readable e img" and "k \<le> 2"
    and "\<forall>i<k. rate_limited (answer e query img i)"
    and "answer e query img k = Resolved result"
  shows "response_text result = Inr reply \<Longrightarrow>
         handleSendMessage e query img =
           SetIsLoading True # reading img @ AppendMessage (user_message query (preview e img))
             # attempts (sent e query img) k
             @ [GenerateContent gemini_pro (sent e query img), AwaitResponse,
                AppendMessage (assistant_message reply), SetIsLoading False]"
    and "response_text result = Inl error \<Longrightarrow>
         handleSendMessage e query img =
           SetIsLoading True # reading img @ AppendMessage (user_message query (preview e img))
             # attempts (sent e query img) k
             @ [GenerateContent gemini_pro (sent e query img), AwaitResponse,
                Toast (error_toast error), SetIsLoading False]"
proof -
  have loop: "retry_loop e query img (encoded e img) 3 0 =
          (attempts (sent e query img) k @ [GenerateContent gemini_pro (sent e query img)],
           Inr (Some result))"
    unfolding sent_def using assms(2-4)
    by (intro retry_loop_success) (simp_all add: answer_def sent_def)
  show "handleSendMessage e query img =
           SetIsLoading True # reading img @ AppendMessage (user_message query (preview e img))
             # attempts (sent e query img) k
             @ [GenerateContent gemini_pro (sent e query img), AwaitResponse,
                AppendMessage (assistant_message reply), SetIsLoading False]"
    if "response_text result = Inr reply"
    using handleSendMessage_resolved [OF assms(1) loop that] by simp
  show "handleSendMessage e query img =
           SetIsLoading True # reading img @ AppendMessage (user_message query (preview e img))
             # attempts (sent e query img) k
             @ [GenerateContent gemini_pro (sent e query img), AwaitResponse,
                Toast (error_toast error), SetIsLoading False]"
    if "response_text result = Inl error"
    using handleSendMessage_blocked [OF assms(1) loop that] by simp
qed

lemma succeeds_cases:
  assumes "succeeds e query img"
  obtains k and result :: generateContentResult and reply
  where "readable e img" and "k \<le> 2" and "\<forall>i<k. rate_limited (answer e query img i)"
    and "answer e query img k = Resolved result" and "response_text result = Inr reply"
proof -
  have res: "\<exists>r t. out = Resolved r \<and> response_text r = Inr t" if "delivers out" for out
    using that by (cases out) (auto simp: delivers_def split: sum.splits)
  from assms have rd: "readable e img" by (simp add: succeeds_def)
  from assms consider
    (zero) "delivers (answer e query img 0)"
  | (one) "rate_limited (answer e query img 0)" "delivers (answer e query img 1)"
  | (two) "rate_limited (answer e query img 0)" "rate_limited (answer e query img 1)"
      "delivers (answer e query img 2)"
    unfolding succeeds_def by blast
  then show ?thesis
  proof cases
    case zero
    then obtain r t where "answer e query img 0 = Resolved r" "response_text r = Inr t"
      using res by blast
    with rd show ?thesis by (intro that [of 0 r t]) simp_all
  next
    case one
    then obtain r t where "answer e query img 1 = Resolved r" "response_text r = Inr t"
      using res by blast
    with rd one(1) show ?thesis by (intro that [of 1 r t]) simp_all
  next
    case two
    then obtain r t where "answer e query img 2 = Resolved r" "response_text r = Inr t"
      using res by blast
    moreover have "\<forall>i<2. rate_limited (answer e query img i)"
      using two(1,2) by (simp add: less_Suc_eq numeral_2_eq_2)
    ultimately show ?thesis using rd by (intro that [of 2 r t]) simp_all
  qed
qed

lemma trace_of_success:
  assumes "succeeds e query img"
  shows "\<exists>k reply. handleSendMessage e query img =
           SetIsLoading True # reading img @ AppendMessage (user_message query (preview e img))
             # attempts (sent e query img) k
             @ [GenerateContent gemini_pro (sent e query img), AwaitResponse,
                AppendMessage (assistant_message reply), SetIsLoading False]"
proof -
  from assms obtain k and result :: generateContentResult and reply
    where "readable e img" and "k \<le> 2" and "\<forall>i<k. rate_limited (answer e query img i)"
      and "answer e query img k = Resolved result" and "response_text result = Inr reply"
    by (rule succeeds_cases)
  from trace_resolved(1) [OF this] show ?thesis by blast
qed

lemma appended_of_success:
  assumes "succeeds e query img"
  shows "\<exists>reply. appended (handleSendMessage e query img) =
           [user_message query (preview e img), assistant_message reply]"
proof -
  from trace_of_success [OF assms] obtain k reply where "handleSendMessage e query img =
           SetIsLoading True # reading img @ AppendMessage (user_message query (preview e img))
             # attempts (sent e query img) k
             @ [GenerateContent gemini_pro (sent e query img), AwaitResponse,
                AppendMessage (assistant_message reply), SetIsLoading False]"
    by blast
  then have "appended (handleSendMessage e query img) =
      [user_message query (preview e img), assistant_message reply]"
    by simp
  then show ?thesis by blast
qed

lemma no_clear_handleSendMessage: "ClearMessages \<notin> set (handleSendMessage e query img)"
  by (cases e query img rule: handleSendMessage_cases) simp_all

lemma no_clear_task: "ClearMessages \<notin> set (task sub)"
  by (cases sub) (simp add: task_def no_clear_handleSendMessage)

lemma messages_submit_all:
  "messages (submit_all subs s) = messages s @ concat (map (\<lambda>sub. appended (task sub)) subs)"
  by (induction subs arbitrary: s) (simp_all add: messages_run no_clear_task)

lemma length_messages_resume:
  assumes "\<forall>t\<in>set tasks. ClearMessages \<notin> set t"
  shows "length (messages (fst (resume i (s, tasks))))
           + sum_list (map (\<lambda>t. length (appended t)) (snd (resume i (s, tasks))))
         = length (messages s) + sum_list (map (\<lambda>t. length (appended t)) tasks)
       \<and> (\<forall>t\<in>set (snd (resume i (s, tasks))). ClearMessages \<notin> set t)"
proof (cases "i < length tasks")
  case False
  with assms show ?thesis by (simp add: resume_def)
next
  case True
  obtain blk rest where nb: "next_block (tasks ! i) = (blk, rest)"
    by (cases "next_block (tasks ! i)")
  then have split: "tasks ! i = blk @ rest" by (rule next_block_append)
  from True assms have "ClearMessages \<notin> set (tasks ! i)" by simp
  with split have nc: "ClearMessages \<notin> set blk" "ClearMessages \<notin> set rest" by simp_all
  have r: "resume i (s, tasks) = (run blk s, tasks[i := rest])"
    using True nb by (simp add: resume_def)
  have m: "length (messages (run blk s)) = length (messages s) + length (appended blk)"
    by (simp add: messages_run nc)
  have "sum_list (map (\<lambda>t. length (appended t)) (tasks[i := rest]))
      = sum_list ((map (\<lambda>t. length (appended t)) tasks)[i := length (appended rest)])"
    by (simp add: map_update)
  also have "\<dots> = sum_list (map (\<lambda>t. length (appended t)) tasks) + length (appended rest)
      - length (appended (tasks ! i))"
    using True by (simp add: sum_list_update)
  finally have u: "sum_list (map (\<lambda>t. length (appended t)) (tasks[i := rest]))
      = sum_list (map (\<lambda>t. length (appended t)) tasks) + length (appended rest)
      - length (appended (tasks ! i))" .
  have ge: "length (appended (tasks ! i)) \<le> sum_list (map (\<lambda>t. length (appended t)) tasks)"
    using True elem_le_sum_list [of i "map (\<lambda>t. length (appended t)) tasks"] by simp
  have len: "length (appended (tasks ! i)) = length (appended blk) + length (appended rest)"
    unfolding split by simp
  have inv: "\<forall>t\<in>set (tasks[i := rest]). ClearMessages \<notin> set t"
    using assms nc(2) by (auto dest!: subsetD [OF set_update_subset_insert])
  from m u ge len inv show ?thesis unfolding r by simp
qed

lemma length_messages_schedule:
  assumes "\<forall>t\<in>set tasks. ClearMessages \<notin> set t"
  shows "length (messages (fst (schedule sched (s, tasks))))
           + sum_list (map (\<lambda>t. length (appended t)) (snd (schedule sched (s, tasks))))
         = length (messages s) + sum_list (map (\<lambda>t. length (appended t)) tasks)"
  using assms
proof (induction sched arbitrary: s tasks)
  case Nil
  then show ?case by simp
next
  case (Cons i sched)
  obtain s' tasks' where r: "resume i (s, tasks) = (s', tasks')"
    by (cases "resume i (s, tasks)")
  from length_messages_resume [OF Cons.prems, of i s] r
  have step: "length (messages s') + sum_list (map (\<lambda>t. length (appended t)) tasks')
         = length (messages s) + sum_list (map (\<lambda>t. length (appended t)) tasks)"
    and inv: "\<forall>t\<in>set tasks'. ClearMessages \<notin> set t"
    by simp_all
  from Cons.IH [OF inv, of s'] step r show ?case by simp
qed


lemma weave_append:
  "weave xss zs yss \<Longrightarrow> weave yss zs' wss \<Longrightarrow> weave xss (zs @ zs') wss"
proof (induction zs arbitrary: xss)
  case Nil
  then show ?case by simp
next
  case (Cons z zs)
  from Cons.prems(1) obtain i where i: "i < length xss"
    and c: "case xss ! i of [] \<Rightarrow> False | x # xs \<Rightarrow> x = z \<and> weave (xss[i := xs]) zs yss"
    by auto
  then obtain xs where x: "xss ! i = z # xs" and rest: "weave (xss[i := xs]) zs yss"
    by (cases "xss ! i") auto
  from Cons.IH [OF rest Cons.prems(2)] have "weave (xss[i := xs]) (zs @ zs') wss" .
  with i x show ?case by (auto intro!: bexI [of _ i])
qed

lemma weave_front:
  "i < length xss \<Longrightarrow> xss ! i = bs @ rs \<Longrightarrow> weave xss bs (xss[i := rs])"
proof (induction bs arbitrary: xss)
  case Nil
  then have "rs = xss ! i" by simp
  then show ?case by simp
next
  case (Cons b bs)
  have "weave (xss[i := bs @ rs]) bs ((xss[i := bs @ rs])[i := rs])"
    using Cons.prems(1) by (intro Cons.IH) simp_all
  then have "weave (xss[i := bs @ rs]) bs (xss[i := rs])" by simp
  with Cons.prems show ?case by (auto intro!: bexI [of _ i])
qed

lemma suspends_not_appended: "suspends x \<Longrightarrow> appended [x] = []"
  by (cases x) simp_all

lemma appended_Cons: "appended (x # xs) = appended [x] @ appended xs"
  using appended_append [of "[x]" xs] by simp

lemma block_of_pending:
  assumes "pre = [] \<or> suspends (last pre)"
    and "\<forall>m\<in>set (appended pre). isUser m"
    and "next_block (pre @ [AppendMessage a, SetIsLoading False]) = (blk, rest)"
  shows "(pre = [] \<longrightarrow> rest = [] \<and> appended blk = [a])
       \<and> (pre \<noteq> [] \<longrightarrow> answers_last a rest \<and> (\<forall>m\<in>set (appended blk). isUser m))"
  using assms
proof (induction pre arbitrary: blk rest)
  case Nil
  then show ?case by auto
next
  case (Cons x pre)
  show ?case
  proof (cases "suspends x")
    case True
    with Cons.prems(3) have blk: "blk = [x]"
      and rest: "rest = pre @ [AppendMessage a, SetIsLoading False]"
      by simp_all
    from Cons.prems(1) have "pre = [] \<or> suspends (last pre)" by (cases pre) simp_all
    moreover from Cons.prems(2) have "\<forall>m\<in>set (appended pre). isUser m"
      by (subst (asm) appended_Cons) simp
    ultimately have "answers_last a rest"
      unfolding answers_last_def rest by blast
    moreover have "appended blk = []" unfolding blk using True by (rule suspends_not_appended)
    ultimately show ?thesis by simp
  next
    case False
    with Cons.prems(1) have ne: "pre \<noteq> []" by auto
    with Cons.prems(1) have last: "pre = [] \<or> suspends (last pre)" by simp
    from Cons.prems(2) have user: "\<forall>m\<in>set (appended pre). isUser m"
      and x: "\<forall>m\<in>set (appended [x]). isUser m"
      by (subst (asm) appended_Cons, simp)+
    obtain b r where br: "next_block (pre @ [AppendMessage a, SetIsLoading False]) = (b, r)"
      by (cases "next_block (pre @ [AppendMessage a, SetIsLoading False])")
    from Cons.IH [OF last user br] ne
    have r: "answers_last a r" and b: "\<forall>m\<in>set (appended b). isUser m"
      by simp_all
    from Cons.prems(3) False br have blk: "blk = x # b" and rest: "rest = r" by simp_all
    have "appended blk = appended [x] @ appended b"
      unfolding blk by (rule appended_Cons)
    with b x have "\<forall>m\<in>set (appended blk). isUser m" by auto
    with r rest show ?thesis by simp
  qed
qed

lemma answers_last_not_empty: "answers_last a t \<Longrightarrow> t \<noteq> []"
  by (auto simp: answers_last_def)

lemma block_of_answers_last:
  assumes "answers_last a t" and "\<not> isUser a" and "next_block t = (blk, rest)"
  shows "filter (\<lambda>m. \<not> isUser m) (appended blk) = (if rest = [] then [a] else [])"
    and "rest = [] \<or> answers_last a rest"
proof -
  from assms(1) obtain pre where t: "t = pre @ [AppendMessage a, SetIsLoading False]"
    and last: "pre = [] \<or> suspends (last pre)"
    and user: "\<forall>m\<in>set (appended pre). isUser m"
    unfolding answers_last_def by blast
  from assms(3) have nb: "next_block (pre @ [AppendMessage a, SetIsLoading False]) = (blk, rest)"
    unfolding t .
  note b = block_of_pending [OF last user nb]
  show "filter (\<lambda>m. \<not> isUser m) (appended blk) = (if rest = [] then [a] else [])"
  proof (cases "pre = []")
    case True
    with b assms(2) show ?thesis by simp
  next
    case False
    with b have "answers_last a rest" and "\<forall>m\<in>set (appended blk). isUser m" by simp_all
    then show ?thesis by (simp add: answers_last_not_empty)
  qed
  show "rest = [] \<or> answers_last a rest"
    using b by (cases "pre = []") simp_all
qed


lemma resume_cases:
  obtains (idle) "i \<ge> length tasks" and "resume i (s, tasks) = (s, tasks)"
  | (block) blk rest where "i < length tasks" and "next_block (tasks ! i) = (blk, rest)"
      and "tasks ! i = blk @ rest" and "resume i (s, tasks) = (run blk s, tasks[i := rest])"
proof (cases "i < length tasks")
  case False
  then show ?thesis by (intro idle) (simp_all add: resume_def)
next
  case True
  obtain blk rest where nb: "next_block (tasks ! i) = (blk, rest)"
    by (cases "next_block (tasks ! i)")
  with True show ?thesis
    by (intro block [of blk rest]) (simp_all add: resume_def next_block_append)
qed

lemma no_clear_resume:
  assumes "\<forall>t\<in>set tasks. ClearMessages \<notin> set t"
  shows "\<forall>t\<in>set (snd (resume i (s, tasks))). ClearMessages \<notin> set t"
  using length_messages_resume [OF assms] by blast

lemma length_schedule: "length (snd (schedule sched (s, tasks))) = length tasks"
proof (induction sched arbitrary: s tasks)
  case Nil
  then show ?case by simp
next
  case (Cons i sched)
  show ?case
  proof (cases rule: resume_cases [where i = i and tasks = tasks and s = s])
    case idle
    with Cons.IH show ?thesis by simp
  next
    case (block blk rest)
    with Cons.IH [of "run blk s" "tasks[i := rest]"] show ?thesis by simp
  qed
qed

lemma weave_schedule:
  assumes "\<forall>t\<in>set tasks. ClearMessages \<notin> set t"
  shows "\<exists>ms. messages (fst (schedule sched (s, tasks))) = messages s @ ms
           \<and> weave (map appended tasks) ms (map appended (snd (schedule sched (s, tasks))))"
  using assms
proof (induction sched arbitrary: s tasks)
  case Nil
  then show ?case by simp
next
  case (Cons i sched)
  show ?case
  proof (cases rule: resume_cases [where i = i and tasks = tasks and s = s])
    case idle
    with Cons.IH [OF Cons.prems, of s] show ?thesis by simp
  next
    case (block blk rest)
    from no_clear_resume [OF Cons.prems, of i s] block(4)
    have nc: "\<forall>t\<in>set (tasks[i := rest]). ClearMessages \<notin> set t" by simp
    from Cons.prems block(1) have "ClearMessages \<notin> set (tasks ! i)" by simp
    with block(3) have "ClearMessages \<notin> set blk" by simp
    then have m: "messages (run blk s) = messages s @ appended blk" by (rule messages_run)
    have "weave (map appended tasks) (appended blk) ((map appended tasks)[i := appended rest])"
      using block(1,3) by (intro weave_front) simp_all
    then have first: "weave (map appended tasks) (appended blk) (map appended (tasks[i := rest]))"
      by (simp add: map_update)
    from Cons.IH [OF nc, of "run blk s"] obtain ms
      where ms: "messages (fst (schedule sched (run blk s, tasks[i := rest]))) =
          messages (run blk s) @ ms"
        and w: "weave (map appended (tasks[i := rest])) ms
          (map appended (snd (schedule sched (run blk s, tasks[i := rest]))))"
      by blast
    from weave_append [OF first w] ms m block(4) show ?thesis
      by (intro exI [of _ "appended blk @ ms"]) simp
  qed
qed

lemma completion_order_bound: "\<forall>i\<in>set (completion_order sched tasks). i < length tasks"
proof (induction sched arbitrary: tasks)
  case Nil
  then show ?case by simp
next
  case (Cons i sched)
  show ?case
  proof (cases "i < length tasks")
    case False
    with Cons.IH [of tasks] show ?thesis by simp
  next
    case True
    obtain blk rest where nb: "next_block (tasks ! i) = (blk, rest)"
      by (cases "next_block (tasks ! i)")
    with True Cons.IH [of "tasks[i := rest]"] show ?thesis by auto
  qed
qed

lemma answers_in_completion_order:
  assumes "length as = length tasks"
    and "\<forall>i<length tasks. tasks ! i = [] \<or> answers_last (as ! i) (tasks ! i)"
    and "\<forall>i<length tasks. \<not> isUser (as ! i)"
    and "\<forall>t\<in>set tasks. ClearMessages \<notin> set t"
  shows "filter (\<lambda>m. \<not> isUser m) (messages (fst (schedule sched (s, tasks)))) =
           filter (\<lambda>m. \<not> isUser m) (messages s)
             @ map (\<lambda>i. as ! i) (completion_order sched tasks)"
  using assms
proof (induction sched arbitrary: s tasks)
  case Nil
  then show ?case by simp
next
  case (Cons i sched)
  show ?case
  proof (cases rule: resume_cases [where i = i and tasks = tasks and s = s])
    case idle
    with Cons.IH [OF Cons.prems, of s] show ?thesis by simp
  next
    case (block blk rest)
    from no_clear_resume [OF Cons.prems(4), of i s] block(4)
    have nc: "\<forall>t\<in>set (tasks[i := rest]). ClearMessages \<notin> set t" by simp
    from Cons.prems(4) block(1) have "ClearMessages \<notin> set (tasks ! i)" by simp
    with block(3) have "ClearMessages \<notin> set blk" by simp
    then have m: "messages (run blk s) = messages s @ appended blk" by (rule messages_run)
    have step: "filter (\<lambda>m. \<not> isUser m) (appended blk) =
          (if tasks ! i \<noteq> [] \<and> rest = [] then [as ! i] else [])"
      and inv_i: "rest = [] \<or> answers_last (as ! i) rest"
    proof -
      from Cons.prems(2) block(1)
      consider (settled) "tasks ! i = []" | (pending) "answers_last (as ! i) (tasks ! i)"
        by blast
      then have "filter (\<lambda>m. \<not> isUser m) (appended blk) =
          (if tasks ! i \<noteq> [] \<and> rest = [] then [as ! i] else [])
          \<and> (rest = [] \<or> answers_last (as ! i) rest)"
      proof cases
        case settled
        with block(2) show ?thesis by simp
      next
        case pending
        from Cons.prems(3) block(1) have nu: "\<not> isUser (as ! i)" by simp
        from block_of_answers_last [OF pending nu block(2)] answers_last_not_empty [OF pending]
        show ?thesis by simp
      qed
      then show "filter (\<lambda>m. \<not> isUser m) (appended blk) =
          (if tasks ! i \<noteq> [] \<and> rest = [] then [as ! i] else [])"
        and "rest = [] \<or> answers_last (as ! i) rest"
        by simp_all
    qed
    have len: "length as = length (tasks[i := rest])" using Cons.prems(1) by simp
    have inv: "\<forall>j<length (tasks[i := rest]).
        (tasks[i := rest]) ! j = [] \<or> answers_last (as ! j) ((tasks[i := rest]) ! j)"
    proof (intro allI impI)
      fix j assume j: "j < length (tasks[i := rest])"
      show "(tasks[i := rest]) ! j = [] \<or> answers_last (as ! j) ((tasks[i := rest]) ! j)"
      proof (cases "j = i")
        case True
        with j inv_i show ?thesis by simp
      next
        case False
        with j Cons.prems(2) show ?thesis by simp
      qed
    qed
    have nu: "\<forall>j<length (tasks[i := rest]). \<not> isUser (as ! j)"
      using Cons.prems(3) by simp
    from Cons.IH [OF len inv nu nc, of "run blk s"]
    have "filter (\<lambda>m. \<not> isUser m)
        (messages (fst (schedule sched (run blk s, tasks[i := rest])))) =
        filter (\<lambda>m. \<not> isUser m) (messages (run blk s))
          @ map (\<lambda>i. as ! i) (completion_order sched (tasks[i := rest]))" .
    with m step block(1,2,4) show ?thesis by simp
  qed
qed


lemma map_constant:
  "length xs = n \<Longrightarrow> \<forall>x\<in>set xs. f x = c \<Longrightarrow> map f xs = replicate n c"
  by (induction xs arbitrary: n) auto

lemma answers_last_of_success:
  assumes "succeeds e query img"
  shows "answers_last (last (appended (handleSendMessage e query img)))
           (handleSendMessage e query img)"
    and "\<not> isUser (last (appended (handleSendMessage e query img)))"
proof -
  from trace_of_success [OF assms] obtain k reply where tr: "handleSendMessage e query img =
           SetIsLoading True # reading img @ AppendMessage (user_message query (preview e img))
             # attempts (sent e query img) k
             @ [GenerateContent gemini_pro (sent e query img), AwaitResponse,
                AppendMessage (assistant_message reply), SetIsLoading False]"
    by blast
  let ?pre = "SetIsLoading True # reading img @ AppendMessage (user_message query (preview e img))
             # attempts (sent e query img) k
             @ [GenerateContent gemini_pro (sent e query img), AwaitResponse]"
  have split: "handleSendMessage e query img =
      ?pre @ [AppendMessage (assistant_message reply), SetIsLoading False]"
    unfolding tr by simp
  have l: "last (appended (handleSendMessage e query img)) = assistant_message reply"
    unfolding tr by simp
  have "suspends (last ?pre)" by simp
  moreover have "\<forall>m\<in>set (appended ?pre). isUser m" by (simp add: user_message_def)
  ultimately show "answers_last (last (appended (handleSendMessage e query img)))
           (handleSendMessage e query img)"
    unfolding l answers_last_def using split by blast
  show "\<not> isUser (last (appended (handleSendMessage e query img)))"
    unfolding l by (simp add: assistant_message_def)
qed

text \<open>
  The example of the specification: a text question answered at the first call.
\<close>

lemma example_scenario:
  "handleSendMessage (fault_injector 0 None ''F = ma'') ''What is Newton's second law?'' None
     = [SetIsLoading True,
        AppendMessage \<lparr>content = ''What is Newton's second law?'', isUser = True, image_ref = None\<rparr>,
        GenerateContent gemini_pro (Prompt ''What is Newton's second law?''),
        AwaitResponse,
        AppendMessage \<lparr>content = ''F = ma'', isUser = False, image_ref = None\<rparr>,
        SetIsLoading False]"
  by (simp add: handleSendMessage_def try_block_def encode_image_def retry_loop.simps
      fault_injector_def request_of_def user_message_def assistant_message_def)

section \<open>Retry policy\<close>

text \<open>
  Claim C1, as stated, fails: a call that resolves does not yet make the submission
  succeed. When reading the text of the resolved result throws, as it does for a blocked
  answer, the \<open>catch\<close> block shows the generic notification and no assistant message is
  appended. Below, the first call resolves.
\<close>

theorem resolved_unreadable_counterexample:
  "readable blocked None
   \<and> answer blocked ''hi'' None 0
       = Resolved \<lparr>response_text = Inl \<lparr>status = None, err_text = ''blocked''\<rparr>\<rparr>
   \<and> handleSendMessage blocked ''hi'' None
       = [SetIsLoading True,
          AppendMessage \<lparr>content = ''hi'', isUser = True, image_ref = None\<rparr>,
          GenerateContent gemini_pro (Prompt ''hi''),
          AwaitResponse,
          Toast \<lparr>title = Some ''Error'',
                 description = ''Failed to generate response. Please try again.'',
                 variant = Some ''destructive'', duration = None\<rparr>,
          SetIsLoading False]
   \<and> messages (run (handleSendMessage blocked ''hi'' None) initial)
       = [\<lparr>content = ''hi'', isUser = True, image_ref = None\<rparr>]"
  by (simp add: handleSendMessage_def try_block_def encode_image_def retry_loop.simps
      blocked_def request_of_def user_message_def error_toast_def readable_def answer_def
      sent_def encoded_def initial_def)

text \<open>
  Claim C1, amended. For a submission that reaches the model (no image, or an image whose
  read succeeds): if the model rejects the first \<open>k\<close> calls with status 429, for \<open>k\<close> at
  most 2, and resolves the next call with a result whose text can be read, the submission
  performs \<open>k + 1\<close> calls with a delay of 2000 milliseconds after each of the \<open>k\<close> rejected
  ones and none after the resolved one, shows no notification, and appends the user
  message and then the assistant message, whose content is the text read from the result.
\<close>

theorem retry_then_success:
  assumes "readable e img" and "k \<le> 2"
    and "\<forall>i<k. rate_limited (answer e query img i)"
    and "answer e query img k = Resolved result"
    and "response_text result = Inr reply"
  shows "handleSendMessage e query img =
           SetIsLoading True # reading img
             @ AppendMessage
                 \<lparr>content = (if query = [] then ''Image analysis request'' else query),
                  isUser = True, image_ref = map_option (createObjectURL e) img\<rparr>
             # attempts (sent e query img) k
             @ [GenerateContent gemini_pro (sent e query img), AwaitResponse,
                AppendMessage \<lparr>content = reply, isUser = False, image_ref = None\<rparr>,
                SetIsLoading False]
         \<and> delays (handleSendMessage e query img) = replicate k 2000
         \<and> calls (handleSendMessage e query img) = replicate (Suc k) (gemini_pro, sent e query img)
         \<and> shown (handleSendMessage e query img) = []
         \<and> messages (run (handleSendMessage e query img) s) =
             messages s @
               [\<lparr>content = (if query = [] then ''Image analysis request'' else query),
                 isUser = True, image_ref = map_option (createObjectURL e) img\<rparr>,
                \<lparr>content = reply, isUser = False, image_ref = None\<rparr>]"
proof -
  have loop: "retry_loop e query img (encoded e img) 3 0 =
          (attempts (sent e query img) k @ [GenerateContent gemini_pro (sent e query img)],
           Inr (Some result))"
    unfolding sent_def using assms(2-4)
    by (intro retry_loop_success) (simp_all add: answer_def sent_def)
  from handleSendMessage_resolved [OF assms(1) loop assms(5)]
  have tr: "handleSendMessage e query img =
           SetIsLoading True # reading img
             @ AppendMessage
                 \<lparr>content = (if query = [] then ''Image analysis request'' else query),
                  isUser = True, image_ref = map_option (createObjectURL e) img\<rparr>
             # attempts (sent e query img) k
             @ [GenerateContent gemini_pro (sent e query img), AwaitResponse,
                AppendMessage \<lparr>content = reply, isUser = False, image_ref = None\<rparr>,
                SetIsLoading False]"
    by (simp add: user_message_def assistant_message_def preview_def)
  have "ClearMessages \<notin> set (handleSendMessage e query img)"
    unfolding tr by simp
  then have "messages (run (handleSendMessage e query img) s) =
      messages s @ appended (handleSendMessage e query img)"
    by (rule messages_run)
  then show ?thesis
    unfolding tr by (simp add: replicate_append_same)
qed

text \<open>Two rate-limited rejections, then an answer, with an image and no text.\<close>

theorem retry_then_success_witness:
  "readable (fault_injector 2 (Some 429) ''F = ma'') (Some photo)
   \<and> (2::nat) \<le> 2
   \<and> rate_limited (answer (fault_injector 2 (Some 429) ''F = ma'') [] (Some photo) 0)
   \<and> rate_limited (answer (fault_injector 2 (Some 429) ''F = ma'') [] (Some photo) 1)
   \<and> answer (fault_injector 2 (Some 429) ''F = ma'') [] (Some photo) 2
       = Resolved \<lparr>response_text = Inr ''F = ma''\<rparr>
   \<and> response_text \<lparr>response_text = Inr ''F = ma''\<rparr> = Inr ''F = ma''
   \<and> delays (handleSendMessage (fault_injector 2 (Some 429) ''F = ma'') [] (Some photo))
       = [2000, 2000]
   \<and> length (calls (handleSendMessage (fault_injector 2 (Some 429) ''F = ma'') [] (Some photo)))
       = 3
   \<and> messages (run (handleSendMessage (fault_injector 2 (Some 429) ''F = ma'') [] (Some photo))
         initial)
       = [\<lparr>content = ''Image analysis request'', isUser = True,
           image_ref = Some ''blob:photo.png''\<rparr>,
          \<lparr>content = ''F = ma'', isUser = False, image_ref = None\<rparr>]"
proof -
  let ?w = "fault_injector 2 (Some 429) ''F = ma''"
  have h1: "readable ?w (Some photo)"
    by (simp add: readable_def convertImageToBase64_def fault_injector_def)
  have h2: "(2::nat) \<le> 2" by simp
  have h3: "\<forall>i<2. rate_limited (answer ?w [] (Some photo) i)"
    by (simp add: answer_def rate_limited_def fault_injector_def)
  have h4: "answer ?w [] (Some photo) 2 = Resolved \<lparr>response_text = Inr ''F = ma''\<rparr>"
    by (simp add: answer_def fault_injector_def)
  have h5: "response_text \<lparr>response_text = Inr ''F = ma''\<rparr> = Inr ''F = ma''"
    by simp
  note r = retry_then_success [OF h1 h2 h3 h4 h5, of initial]
  from r have d: "delays (handleSendMessage ?w [] (Some photo)) = replicate 2 2000"
    by blast
  from r have c: "calls (handleSendMessage ?w [] (Some photo)) =
      replicate (Suc 2) (gemini_pro, sent ?w [] (Some photo))"
    by blast
  from r have m: "messages (run (handleSendMessage ?w [] (Some photo)) initial) =
      messages initial @
        [\<lparr>content = (if [] = ([]::string) then ''Image analysis request'' else []),
          isUser = True, image_ref = map_option (createObjectURL ?w) (Some photo)\<rparr>,
         \<lparr>content = ''F = ma'', isUser = False, image_ref = None\<rparr>]"
    by blast
  have m': "messages initial @
        [\<lparr>content = (if [] = ([]::string) then ''Image analysis request'' else []),
          isUser = True, image_ref = map_option (createObjectURL ?w) (Some photo)\<rparr>,
         \<lparr>content = ''F = ma'', isUser = False, image_ref = None\<rparr>]
     = [\<lparr>content = ''Image analysis request'', isUser = True,
           image_ref = Some ''blob:photo.png''\<rparr>,
          \<lparr>content = ''F = ma'', isUser = False, image_ref = None\<rparr>]"
    by (simp add: initial_def fault_injector_def photo_def)
  from h3 have h3': "rate_limited (answer ?w [] (Some photo) 0)"
    "rate_limited (answer ?w [] (Some photo) 1)"
    by simp_all
  from c have c': "length (calls (handleSendMessage ?w [] (Some photo))) = 3"
    by simp
  show ?thesis
    using h1 h3' h4 d c' m m' by (simp add: numeral_2_eq_2)
qed

text \<open>
  Claim C2. For a submission that reaches the model: if the model rejects every call with
  status 429, the submission makes exactly three calls, with a delay of 2000 milliseconds
  after the first and after the second, then fails: it shows one notification, carrying
  the rate-limit message, and appends no assistant message.
\<close>

theorem rate_limit_exhausted:
  assumes "readable e img"
    and "\<forall>i<3. rate_limited (answer e query img i)"
  shows "handleSendMessage e query img =
           SetIsLoading True # reading img @ AppendMessage (user_message query (preview e img))
             # attempts (sent e query img) 2
             @ [GenerateContent gemini_pro (sent e query img),
                Toast \<lparr>title = Some ''Error'',
                       description =
                         ''We've hit the API rate limit. Please try again in a few minutes.'',
                       variant = Some ''destructive'', duration = None\<rparr>,
                SetIsLoading False]
         \<and> length (calls (handleSendMessage e query img)) = 3
         \<and> delays (handleSendMessage e query img) = [2000, 2000]
         \<and> map description (shown (handleSendMessage e query img)) =
             [''We've hit the API rate limit. Please try again in a few minutes.'']
         \<and> appended (handleSendMessage e query img) = [user_message query (preview e img)]"
proof -
  from assms(2) have "rate_limited (answer e query img 2)" by simp
  then obtain error where last: "answer e query img 2 = Rejected error"
    and st: "status error = Some 429"
    by (auto simp: rate_limited_def split: outcome.splits)
  have a: "int 2 < 3" by simp
  have b: "\<forall>i<2. rate_limited
      (generateContent e (0 + i) gemini_pro (request_of query img (encoded e img)))"
    using assms(2) by (simp add: answer_def sent_def)
  have c: "generateContent e (0 + 2) gemini_pro (request_of query img (encoded e img)) =
      Rejected error"
    using last by (simp add: answer_def sent_def numeral_2_eq_2)
  have d: "status error \<noteq> Some 429 \<or> (3::int) \<le> int 2 + 1" by simp
  have "retry_loop e query img (encoded e img) 3 0 =
          (attempts (sent e query img) 2 @ [GenerateContent gemini_pro (sent e query img)],
           Inl error)"
    unfolding sent_def by (rule retry_loop_thrown [OF a b c d])
  from handleSendMessage_thrown [OF assms(1) this]
  have tr: "handleSendMessage e query img =
           SetIsLoading True # reading img @ AppendMessage (user_message query (preview e img))
             # attempts (sent e query img) 2
             @ [GenerateContent gemini_pro (sent e query img),
                Toast \<lparr>title = Some ''Error'',
                       description =
                         ''We've hit the API rate limit. Please try again in a few minutes.'',
                       variant = Some ''destructive'', duration = None\<rparr>,
                SetIsLoading False]"
    by (simp add: error_toast_def st)
  show ?thesis
    unfolding tr by (simp add: numeral_2_eq_2)
qed

text \<open>Three rate-limited rejections of a text question.\<close>

theorem rate_limit_exhausted_witness:
  "readable (fault_injector 3 (Some 429) ''late'') None
   \<and> rate_limited (answer (fault_injector 3 (Some 429) ''late'') ''hi'' None 0)
   \<and> rate_limited (answer (fault_injector 3 (Some 429) ''late'') ''hi'' None 1)
   \<and> rate_limited (answer (fault_injector 3 (Some 429) ''late'') ''hi'' None 2)
   \<and> length (calls (handleSendMessage (fault_injector 3 (Some 429) ''late'') ''hi'' None)) = 3
   \<and> delays (handleSendMessage (fault_injector 3 (Some 429) ''late'') ''hi'' None)
       = [2000, 2000]
   \<and> map description (shown (handleSendMessage (fault_injector 3 (Some 429) ''late'') ''hi'' None))
       = [''We've hit the API rate limit. Please try again in a few minutes.'']
   \<and> appended (handleSendMessage (fault_injector 3 (Some 429) ''late'') ''hi'' None)
       = [\<lparr>content = ''hi'', isUser = True, image_ref = None\<rparr>]"
proof -
  let ?w = "fault_injector 3 (Some 429) ''late''"
  have h1: "readable ?w None"
    by (simp add: readable_def)
  have h2: "\<forall>i<3. rate_limited (answer ?w ''hi'' None i)"
    by (simp add: answer_def rate_limited_def fault_injector_def)
  note r = rate_limit_exhausted [OF h1 h2]
  from r have c: "length (calls (handleSendMessage ?w ''hi'' None)) = 3"
    by blast
  from r have d: "delays (handleSendMessage ?w ''hi'' None) = [2000, 2000]"
    by blast
  from r have t: "map description (shown (handleSendMessage ?w ''hi'' None)) =
      [''We've hit the API rate limit. Please try again in a few minutes.'']"
    by blast
  from r have a: "appended (handleSendMessage ?w ''hi'' None) =
      [user_message ''hi'' (preview ?w None)]"
    by blast
  have a': "user_message ''hi'' (preview ?w None) =
      \<lparr>content = ''hi'', isUser = True, image_ref = None\<rparr>"
    by (simp add: user_message_def preview_def)
  from h2 have h2': "rate_limited (answer ?w ''hi'' None 0)"
    "rate_limited (answer ?w ''hi'' None 1)" "rate_limited (answer ?w ''hi'' None 2)"
    by simp_all
  show ?thesis
    using h1 h2' c d t a a' by simp
qed

text \<open>
  Claim C3. For a submission that reaches the model: if the first call is rejected with an
  error whose status is not 429 (or that has none), the submission makes that one call, no
  delay and no further call, appends no assistant message, and shows one notification,
  carrying the generic message.
\<close>

theorem other_error_fails_at_once:
  assumes "readable e img"
    and "answer e query img 0 = Rejected error"
    and "status error \<noteq> Some 429"
  shows "handleSendMessage e query img =
           SetIsLoading True # reading img @
             [AppendMessage (user_message query (preview e img)),
              GenerateContent gemini_pro (sent e query img),
              Toast \<lparr>title = Some ''Error'',
                     description = ''Failed to generate response. Please try again.'',
                     variant = Some ''destructive'', duration = None\<rparr>,
              SetIsLoading False]
         \<and> length (calls (handleSendMessage e query img)) = 1
         \<and> delays (handleSendMessage e query img) = []
         \<and> filter (\<lambda>m. \<not> isUser m) (appended (handleSendMessage e query img)) = []
         \<and> map description (shown (handleSendMessage e query img)) =
             [''Failed to generate response. Please try again.'']"
proof -
  have "retry_loop e query img (encoded e img) 3 0 =
          ([GenerateContent gemini_pro (sent e query img)], Inl error)"
    unfolding sent_def using assms(2,3)
    by (intro retry_loop_stops) (simp_all add: answer_def sent_def)
  from handleSendMessage_thrown [OF assms(1) this]
  have tr: "handleSendMessage e query img =
           SetIsLoading True # reading img @
             [AppendMessage (user_message query (preview e img)),
              GenerateContent gemini_pro (sent e query img),
              Toast \<lparr>title = Some ''Error'',
                     description = ''Failed to generate response. Please try again.'',
                     variant = Some ''destructive'', duration = None\<rparr>,
              SetIsLoading False]"
    by (simp add: error_toast_def assms(3))
  show ?thesis
    unfolding tr by (simp add: user_message_def)
qed

text \<open>A rejection with status 500.\<close>

theorem other_error_fails_at_once_witness:
  "readable (fault_injector 1 (Some 500) ''late'') None
   \<and> answer (fault_injector 1 (Some 500) ''late'') ''hi'' None 0
       = Rejected \<lparr>status = Some 500, err_text = ''rejected''\<rparr>
   \<and> status \<lparr>status = Some 500, err_text = ''rejected''\<rparr> \<noteq> Some 429
   \<and> handleSendMessage (fault_injector 1 (Some 500) ''late'') ''hi'' None =
       [SetIsLoading True,
        AppendMessage \<lparr>content = ''hi'', isUser = True, image_ref = None\<rparr>,
        GenerateContent gemini_pro (Prompt ''hi''),
        Toast \<lparr>title = Some ''Error'',
               description = ''Failed to generate response. Please try again.'',
               variant = Some ''destructive'', duration = None\<rparr>,
        SetIsLoading False]"
proof -
  let ?w = "fault_injector 1 (Some 500) ''late''"
  have h1: "readable ?w None"
    by (simp add: readable_def)
  have h2: "answer ?w ''hi'' None 0 = Rejected \<lparr>status = Some 500, err_text = ''rejected''\<rparr>"
    by (simp add: answer_def fault_injector_def)
  have h3: "status \<lparr>status = Some 500, err_text = ''rejected''\<rparr> \<noteq> Some 429"
    by simp
  from other_error_fails_at_once [OF h1 h2 h3]
  have "handleSendMessage ?w ''hi'' None =
      SetIsLoading True # reading None @
        [AppendMessage (user_message ''hi'' (preview ?w None)),
         GenerateContent gemini_pro (sent ?w ''hi'' None),
         Toast \<lparr>title = Some ''Error'',
                description = ''Failed to generate response. Please try again.'',
                variant = Some ''destructive'', duration = None\<rparr>,
         SetIsLoading False]"
    by blast
  then have "handleSendMessage ?w ''hi'' None =
       [SetIsLoading True,
        AppendMessage \<lparr>content = ''hi'', isUser = True, image_ref = None\<rparr>,
        GenerateContent gemini_pro (Prompt ''hi''),
        Toast \<lparr>title = Some ''Error'',
               description = ''Failed to generate response. Please try again.'',
               variant = Some ''destructive'', duration = None\<rparr>,
        SetIsLoading False]"
    by (simp add: reading_def user_message_def preview_def sent_def request_of_def)
  with h1 h2 h3 show ?thesis by blast
qed

section \<open>Image encoding\<close>

text \<open>
  Claim C9. When the read of the submitted image rejects, the submission stops there: the
  model is never called, nothing is appended, the rejection reaches the \<open>catch\<close> block,
  which shows an error notification built from it, and the busy flag is cleared.
\<close>

theorem encoding_failure_aborts:
  assumes "convertImageToBase64 e f = Inl error"
  shows "handleSendMessage e query (Some f) =
           [SetIsLoading True, CreateObjectURL f, ReadAsDataURL f, Toast (error_toast error),
            SetIsLoading False]
         \<and> calls (handleSendMessage e query (Some f)) = []
         \<and> appended (handleSendMessage e query (Some f)) = []
         \<and> shown (handleSendMessage e query (Some f)) = [error_toast error]
         \<and> title (error_toast error) = Some ''Error''
         \<and> variant (error_toast error) = Some ''destructive''"
  using handleSendMessage_unreadable [OF assms, of query]
  by (simp add: error_toast_def)


text \<open>An unreadable file.\<close>

theorem encoding_failure_aborts_witness:
  "convertImageToBase64 unreadable photo = Inl \<lparr>status = None, err_text = ''NotReadableError''\<rparr>
   \<and> handleSendMessage unreadable ''what is this'' (Some photo) =
       [SetIsLoading True, CreateObjectURL photo, ReadAsDataURL photo,
        Toast \<lparr>title = Some ''Error'',
               description = ''Failed to generate response. Please try again.'',
               variant = Some ''destructive'', duration = None\<rparr>,
        SetIsLoading False]
   \<and> calls (handleSendMessage unreadable ''what is this'' (Some photo)) = []"
proof -
  have h: "convertImageToBase64 unreadable photo =
      Inl \<lparr>status = None, err_text = ''NotReadableError''\<rparr>"
    by (simp add: convertImageToBase64_def unreadable_def)
  note r = encoding_failure_aborts [OF h, of "''what is this''"]
  from r have tr: "handleSendMessage unreadable ''what is this'' (Some photo) =
      [SetIsLoading True, CreateObjectURL photo, ReadAsDataURL photo,
       Toast (error_toast \<lparr>status = None, err_text = ''NotReadableError''\<rparr>),
       SetIsLoading False]"
    by blast
  from r have c: "calls (handleSendMessage unreadable ''what is this'' (Some photo)) = []"
    by blast
  have t: "error_toast \<lparr>status = None, err_text = ''NotReadableError''\<rparr> =
      \<lparr>title = Some ''Error'',
       description = ''Failed to generate response. Please try again.'',
       variant = Some ''destructive'', duration = None\<rparr>"
    by (simp add: error_toast_def)
  show ?thesis using h tr c t by simp
qed

section \<open>Messages and requests\<close>

text \<open>
  Claim C7. A submission whose image, if any, can be read appends exactly one user message
  (a submission whose image cannot be read appends none). Its content is the placeholder
  \<open>Image analysis request\<close> when the submitted text is empty and the submitted text
  otherwise, and when an image is submitted its image reference is set, to the URL that
  \<open>URL.createObjectURL\<close> gave for the file.
\<close>

theorem user_message_of_submission:
  "filter isUser (appended (handleSendMessage e query img)) =
     (if readable e img then [user_message query (preview e img)] else [])
   \<and> content (user_message [] (preview e img)) = ''Image analysis request''
   \<and> (query \<noteq> [] \<longrightarrow> content (user_message query (preview e img)) = query)
   \<and> (\<forall>f. img = Some f \<longrightarrow>
        image_ref (user_message query (preview e img)) = Some (createObjectURL e f))"
proof -
  have one: "filter isUser (appended (handleSendMessage e query img)) =
      (if readable e img then [user_message query (preview e img)] else [])"
    by (rule user_messages_handleSendMessage)
  have placeholder: "content (user_message [] (preview e img)) = ''Image analysis request''"
    by (simp add: user_message_def)
  have typed: "query \<noteq> [] \<longrightarrow> content (user_message query (preview e img)) = query"
    by (simp add: user_message_def)
  have ref: "\<forall>f. img = Some f \<longrightarrow>
      image_ref (user_message query (preview e img)) = Some (createObjectURL e f)"
    by (simp add: user_message_def preview_def)
  from one placeholder typed ref show ?thesis by blast
qed



text \<open>An image with no text, and an image with a question.\<close>

theorem user_message_of_submission_witness:
  "readable (fault_injector 0 None ''a cat'') (Some photo)
   \<and> filter isUser (appended (handleSendMessage (fault_injector 0 None ''a cat'') [] (Some photo)))
     = [\<lparr>content = ''Image analysis request'', isUser = True,
         image_ref = Some ''blob:photo.png''\<rparr>]
   \<and> ''what is this'' \<noteq> []
   \<and> content (user_message ''what is this'' (preview (fault_injector 0 None ''a cat'') (Some photo)))
     = ''what is this''"
proof -
  let ?w = "fault_injector 0 None ''a cat''"
  have h: "readable ?w (Some photo)"
    by (simp add: readable_def convertImageToBase64_def fault_injector_def)
  note r = user_message_of_submission [of ?w "[]" "Some photo"]
  from r h have a: "filter isUser (appended (handleSendMessage ?w [] (Some photo))) =
      [user_message [] (preview ?w (Some photo))]"
    by simp
  have b: "user_message [] (preview ?w (Some photo)) =
      \<lparr>content = ''Image analysis request'', isUser = True,
       image_ref = Some ''blob:photo.png''\<rparr>"
    by (simp add: user_message_def preview_def fault_injector_def photo_def)
  have c: "''what is this'' \<noteq> []" by simp
  from user_message_of_submission [of ?w "''what is this''" "Some photo"] c
  have d: "content (user_message ''what is this'' (preview ?w (Some photo))) = ''what is this''"
    by blast
  show ?thesis using h a b c d by simp
qed

text \<open>
  Claim C10. In a submission with empty text, every request that carries an image has the
  prompt \<open>Please analyze this image\<close>. When the image is read to a non-empty string,
  at least one request is sent, every request sent carries the image with that prompt, and
  the user message appended holds the placeholder \<open>Image analysis request\<close>, a different
  string.
\<close>

theorem image_prompt_fallback:
  "(\<forall>p d t pr. (p, InlineDataPrompt d t pr) \<in> set (calls (handleSendMessage e [] img))
        \<longrightarrow> pr = ''Please analyze this image'')
   \<and> (convertImageToBase64 e f = Inr b \<and> b \<noteq> [] \<longrightarrow>
        calls (handleSendMessage e [] (Some f)) \<noteq> []
        \<and> (\<forall>c \<in> set (calls (handleSendMessage e [] (Some f))).
              c = (gemini_pro,
                   InlineDataPrompt (at_index (split CHR '','' b) 1) (file_type f)
                     ''Please analyze this image''))
        \<and> filter isUser (appended (handleSendMessage e [] (Some f))) =
            [\<lparr>content = ''Image analysis request'', isUser = True,
              image_ref = Some (createObjectURL e f)\<rparr>])
   \<and> ''Please analyze this image'' \<noteq> ''Image analysis request''"
proof -
  obtain k where k: "calls (handleSendMessage e [] img) =
      (if readable e img then replicate (Suc k) (gemini_pro, sent e [] img) else [])"
    using calls_handleSendMessage by blast
  have first: "\<forall>p d t pr. (p, InlineDataPrompt d t pr) \<in> set (calls (handleSendMessage e [] img))
        \<longrightarrow> pr = ''Please analyze this image''"
    unfolding k
    by (auto simp: sent_def request_of_def split: option.splits if_splits)
  have second: "calls (handleSendMessage e [] (Some f)) \<noteq> []
        \<and> (\<forall>c \<in> set (calls (handleSendMessage e [] (Some f))).
              c = (gemini_pro,
                   InlineDataPrompt (at_index (split CHR '','' b) 1) (file_type f)
                     ''Please analyze this image''))
        \<and> filter isUser (appended (handleSendMessage e [] (Some f))) =
            [\<lparr>content = ''Image analysis request'', isUser = True,
              image_ref = Some (createObjectURL e f)\<rparr>]"
    if enc: "convertImageToBase64 e f = Inr b" and ne: "b \<noteq> []"
  proof -
    from enc have rd: "readable e (Some f)" by (simp add: readable_def)
    obtain j where j: "calls (handleSendMessage e [] (Some f)) =
        replicate (Suc j) (gemini_pro, sent e [] (Some f))"
      using calls_handleSendMessage [of e "[]" "Some f"] rd by auto
    have s: "sent e [] (Some f) =
        InlineDataPrompt (at_index (split CHR '','' b) 1) (file_type f)
          ''Please analyze this image''"
      using enc ne by (simp add: sent_def request_of_def encoded_def)
    show ?thesis
      unfolding j s using rd
      by (simp add: user_messages_handleSendMessage user_message_def preview_def)
  qed
  from first second show ?thesis by simp
qed


text \<open>An image with no text, answered at the first call.\<close>

theorem image_prompt_fallback_witness:
  "convertImageToBase64 (fault_injector 0 None ''a cat'') photo
     = Inr ''data:image/png;base64,iVBORw0KGgo=''
   \<and> ''data:image/png;base64,iVBORw0KGgo='' \<noteq> []
   \<and> calls (handleSendMessage (fault_injector 0 None ''a cat'') [] (Some photo))
     = [(gemini_pro,
         InlineDataPrompt (Some ''iVBORw0KGgo='') ''image/png'' ''Please analyze this image'')]
   \<and> filter isUser (appended (handleSendMessage (fault_injector 0 None ''a cat'') [] (Some photo)))
     = [\<lparr>content = ''Image analysis request'', isUser = True,
         image_ref = Some ''blob:photo.png''\<rparr>]"
proof -
  let ?w = "fault_injector 0 None ''a cat''"
  have h1: "convertImageToBase64 ?w photo = Inr ''data:image/png;base64,iVBORw0KGgo=''"
    by (simp add: convertImageToBase64_def fault_injector_def photo_def)
  have h2: "''data:image/png;base64,iVBORw0KGgo='' \<noteq> []" by simp
  from image_prompt_fallback [of ?w "Some photo" photo "''data:image/png;base64,iVBORw0KGgo=''"]
    h1 h2
  have u: "filter isUser (appended (handleSendMessage ?w [] (Some photo))) =
      [\<lparr>content = ''Image analysis request'', isUser = True,
        image_ref = Some (createObjectURL ?w photo)\<rparr>]"
    by blast
  have url: "createObjectURL ?w photo = ''blob:photo.png''"
    by (simp add: fault_injector_def photo_def)
  have c: "calls (handleSendMessage ?w [] (Some photo)) =
      [(gemini_pro,
        InlineDataPrompt (Some ''iVBORw0KGgo='') ''image/png'' ''Please analyze this image'')]"
    by (simp add: handleSendMessage_def try_block_def encode_image_def retry_loop.simps
        fault_injector_def request_of_def convertImageToBase64_def photo_def at_index_def)
  show ?thesis using h1 h2 u url c by simp
qed

text \<open>
  Claim C4, as stated, fails: the image-capable component sends a submission without an
  image to \<open>gemini-pro\<close> too, not to \<open>gemini-2.0-flash-exp\<close>.
\<close>

theorem text_submission_model_counterexample:
  "calls (handleSendMessage (fault_injector 0 None ''F = ma'')
            ''What is Newton's second law?'' None)
     = [(gemini_pro, Prompt ''What is Newton's second law?'')]
   \<and> model gemini_pro = ''gemini-pro''
   \<and> model gemini_pro \<noteq> ''gemini-2.0-flash-exp''"
  by (simp add: handleSendMessage_def try_block_def encode_image_def retry_loop.simps
      fault_injector_def request_of_def user_message_def assistant_message_def gemini_pro_def)


text \<open>
  Claim C4, amended. The model is chosen by the component, not by the submission: the
  text-only component sends its one request to \<open>gemini-2.0-flash-exp\<close>, and every
  request of the image-capable component goes to \<open>gemini-pro\<close>, whether the submission
  has an image or not; a submission without an image sends the prompt alone.
\<close>

theorem model_of_each_component:
  "calls (handleSendMessage_text e query) = [(gemini_2_0_flash_exp, Prompt query)]
   \<and> model gemini_2_0_flash_exp = ''gemini-2.0-flash-exp''
   \<and> (\<forall>c \<in> set (calls (handleSendMessage e query img)). model (fst c) = ''gemini-pro'')
   \<and> (readable e img \<longrightarrow> calls (handleSendMessage e query img) \<noteq> [])
   \<and> (\<forall>c \<in> set (calls (handleSendMessage e query None)). c = (gemini_pro, Prompt query))"
proof -
  obtain k where "calls (handleSendMessage e query img) =
      (if readable e img then replicate (Suc k) (gemini_pro, sent e query img) else [])"
    using calls_handleSendMessage by blast
  moreover obtain j where "calls (handleSendMessage e query None) =
      (if readable e None then replicate (Suc j) (gemini_pro, sent e query None) else [])"
    using calls_handleSendMessage by blast
  moreover have "calls (handleSendMessage_text e query) =
      [(gemini_2_0_flash_exp, Prompt query)]"
    by (simp add: handleSendMessage_text_def split: outcome.splits sum.splits)
  ultimately show ?thesis
    by (auto simp: gemini_2_0_flash_exp_def gemini_pro_def sent_def request_of_def
        split: if_splits)
qed


text \<open>One world, a question to each component and an image to the second.\<close>

theorem model_of_each_component_witness:
  "map (\<lambda>c. model (fst c))
        (calls (handleSendMessage_text (fault_injector 1 (Some 429) ''a cat'') ''hi''))
     = [''gemini-2.0-flash-exp'']
   \<and> readable (fault_injector 1 (Some 429) ''a cat'') (Some photo)
   \<and> map (\<lambda>c. model (fst c))
        (calls (handleSendMessage (fault_injector 1 (Some 429) ''a cat'') [] (Some photo)))
     = [''gemini-pro'', ''gemini-pro'']
   \<and> calls (handleSendMessage (fault_injector 1 (Some 429) ''a cat'') ''hi'' None)
     = [(gemini_pro, Prompt ''hi''), (gemini_pro, Prompt ''hi'')]"
proof -
  let ?w = "fault_injector 1 (Some 429) ''a cat''"
  note r = model_of_each_component [of ?w "''hi''" "Some photo"]
  from r have a: "calls (handleSendMessage_text ?w ''hi'') =
      [(gemini_2_0_flash_exp, Prompt ''hi'')]"
    by blast
  from r have b: "model gemini_2_0_flash_exp = ''gemini-2.0-flash-exp''"
    by blast
  have h: "readable ?w (Some photo)"
    by (simp add: readable_def convertImageToBase64_def fault_injector_def)
  have c: "calls (handleSendMessage ?w [] (Some photo)) =
      [(gemini_pro, InlineDataPrompt (Some ''iVBORw0KGgo='') ''image/png''
                      ''Please analyze this image''),
       (gemini_pro, InlineDataPrompt (Some ''iVBORw0KGgo='') ''image/png''
                      ''Please analyze this image'')]"
    by (simp add: handleSendMessage_def try_block_def encode_image_def retry_loop.simps
        fault_injector_def request_of_def convertImageToBase64_def photo_def at_index_def)
  have d: "calls (handleSendMessage ?w ''hi'' None) =
      [(gemini_pro, Prompt ''hi''), (gemini_pro, Prompt ''hi'')]"
    by (simp add: handleSendMessage_def try_block_def encode_image_def retry_loop.simps
        fault_injector_def request_of_def)
  have m: "model gemini_pro = ''gemini-pro''" by (simp add: gemini_pro_def)
  show ?thesis using a b c d h m by simp
qed

section \<open>Busy flag\<close>

text \<open>
  Claim C6, as stated, fails when two submissions overlap: the flag is one boolean of the
  component, and the submission that settles first lowers it while the other is still
  waiting for its answer. Below, two text questions are submitted one after the other
  before either is answered; the first is then answered and settles.
\<close>

theorem busy_flag_overlap_counterexample:
  "snd (schedule [0, 1, 0, 0]
         (initial,
          [handleSendMessage (fault_injector 0 None ''first answer'') ''first'' None,
           handleSendMessage (fault_injector 0 None ''second answer'') ''second'' None]))
     = [[],
        [AwaitResponse,
         AppendMessage \<lparr>content = ''second answer'', isUser = False, image_ref = None\<rparr>,
         SetIsLoading False]]
   \<and> \<not> isLoading (fst (schedule [0, 1, 0, 0]
         (initial,
          [handleSendMessage (fault_injector 0 None ''first answer'') ''first'' None,
           handleSendMessage (fault_injector 0 None ''second answer'') ''second'' None])))"
  by (simp add: handleSendMessage_def try_block_def encode_image_def retry_loop.simps
      fault_injector_def request_of_def user_message_def assistant_message_def
      resume_def initial_def)



text \<open>
  Claim C6, amended. Every submission raises the busy flag as its first step and lowers it
  as its last step, on the success path and on every failure path, and does not write it
  in between. The flag is therefore raised after each step of the submission but the
  last, whatever other handlers do in between, as long as none of them lowers it (in
  particular when the submission runs alone), and it is lowered when the submission has
  settled.
\<close>

theorem busy_flag_of_submission:
  "busy_writes (handleSendMessage e query img) = [True, False]
   \<and> hd (handleSendMessage e query img) = SetIsLoading True
   \<and> last (handleSendMessage e query img) = SetIsLoading False
   \<and> (\<forall>n. 0 < n \<and> n < length (handleSendMessage e query img) \<longrightarrow>
         isLoading (run (take n (handleSendMessage e query img)) s))
   \<and> (\<forall>n others w.
         0 < n \<and> n < length (handleSendMessage e query img)
         \<and> w \<in> shuffles (take n (handleSendMessage e query img)) others
         \<and> False \<notin> set (busy_writes others)
         \<longrightarrow> isLoading (run w s))
   \<and> \<not> isLoading (run (handleSendMessage e query img) s)"
proof -
  obtain mid
    where tr: "handleSendMessage e query img = SetIsLoading True # mid @ [SetIsLoading False]"
    and mid: "busy_writes mid = []"
    using handleSendMessage_busy_shape by blast
  note alone = busy_between [OF tr mid]
  have among: "\<forall>n others w.
         0 < n \<and> n < length (handleSendMessage e query img)
         \<and> w \<in> shuffles (take n (handleSendMessage e query img)) others
         \<and> False \<notin> set (busy_writes others)
         \<longrightarrow> isLoading (run w s)"
    using busy_among_others [OF tr mid] by blast
  from alone(1) alone(2) alone(3) alone(4) [of s] alone(5) [of s] among show ?thesis
    by blast
qed

text \<open>
  A question answered at the first call. After its first block (up to the call of the
  model) a second submission runs its own first block; the flag is still raised.
\<close>

theorem busy_flag_of_submission_witness:
  "(0::nat) < 3
   \<and> 3 < length (handleSendMessage (fault_injector 0 None ''F = ma'') ''hi'' None)
   \<and> [SetIsLoading True,
        AppendMessage \<lparr>content = ''hi'', isUser = True, image_ref = None\<rparr>,
        GenerateContent gemini_pro (Prompt ''hi''),
        SetIsLoading True,
        AppendMessage \<lparr>content = ''again'', isUser = True, image_ref = None\<rparr>,
        GenerateContent gemini_pro (Prompt ''again'')]
       \<in> shuffles (take 3 (handleSendMessage (fault_injector 0 None ''F = ma'') ''hi'' None))
           (take 3 (handleSendMessage (fault_injector 0 None ''F = ma'') ''again'' None))
   \<and> False \<notin> set (busy_writes
           (take 3 (handleSendMessage (fault_injector 0 None ''F = ma'') ''again'' None)))
   \<and> isLoading (run
         [SetIsLoading True,
          AppendMessage \<lparr>content = ''hi'', isUser = True, image_ref = None\<rparr>,
          GenerateContent gemini_pro (Prompt ''hi''),
          SetIsLoading True,
          AppendMessage \<lparr>content = ''again'', isUser = True, image_ref = None\<rparr>,
          GenerateContent gemini_pro (Prompt ''again'')] initial)
   \<and> busy_writes (handleSendMessage (fault_injector 0 None ''F = ma'') ''hi'' None)
       = [True, False]
   \<and> \<not> isLoading (run (handleSendMessage (fault_injector 0 None ''F = ma'') ''hi'' None)
            initial)"
proof -
  let ?tr = "handleSendMessage (fault_injector 0 None ''F = ma'') ''hi'' None"
  let ?others = "take 3 (handleSendMessage (fault_injector 0 None ''F = ma'') ''again'' None)"
  let ?w = "[SetIsLoading True,
        AppendMessage \<lparr>content = ''hi'', isUser = True, image_ref = None\<rparr>,
        GenerateContent gemini_pro (Prompt ''hi''),
        SetIsLoading True,
        AppendMessage \<lparr>content = ''again'', isUser = True, image_ref = None\<rparr>,
        GenerateContent gemini_pro (Prompt ''again'')]"
  have tr: "?tr =
      [SetIsLoading True,
       AppendMessage \<lparr>content = ''hi'', isUser = True, image_ref = None\<rparr>,
       GenerateContent gemini_pro (Prompt ''hi''),
       AwaitResponse,
       AppendMessage \<lparr>content = ''F = ma'', isUser = False, image_ref = None\<rparr>,
       SetIsLoading False]"
    by (simp add: handleSendMessage_def try_block_def encode_image_def retry_loop.simps
        fault_injector_def request_of_def user_message_def assistant_message_def)
  have others: "?others =
      [SetIsLoading True,
       AppendMessage \<lparr>content = ''again'', isUser = True, image_ref = None\<rparr>,
       GenerateContent gemini_pro (Prompt ''again'')]"
    by (simp add: handleSendMessage_def try_block_def encode_image_def retry_loop.simps
        fault_injector_def request_of_def user_message_def assistant_message_def
        numeral_3_eq_3)
  have h1: "(0::nat) < 3" by simp
  have h2: "3 < length ?tr" unfolding tr by simp
  have h3: "?w \<in> shuffles (take 3 ?tr) ?others"
    unfolding tr others by (simp add: numeral_3_eq_3)
  have h4: "False \<notin> set (busy_writes ?others)" unfolding others by simp
  note r = busy_flag_of_submission [of "fault_injector 0 None ''F = ma''" "''hi''" None initial]
  from r h1 h2 h3 h4 have c1: "isLoading (run ?w initial)" by blast
  from r have c2: "busy_writes ?tr = [True, False]" by blast
  from r have c3: "\<not> isLoading (run ?tr initial)" by blast
  from h1 h2 h3 h4 c1 c2 c3 show ?thesis by blast
qed

section \<open>Conversation state\<close>

text \<open>
  Claim C8. Clearing the conversation, from any view state, leaves the message list empty
  and the busy flag as it was, and shows the confirmation notification. The handler has
  no suspension: the event loop runs it in one piece, and the effects that every other
  invocation in flight has still to perform are left as they were.
\<close>

theorem clear_chat:
  "messages (run handleClearChat s) = []
   \<and> isLoading (run handleClearChat s) = isLoading s
   \<and> notifications (run handleClearChat s) =
       notifications s @ [\<lparr>title = None, description = ''Chat history cleared'',
                            variant = None, duration = Some 2000\<rparr>]
   \<and> (i < length tasks \<and> tasks ! i = handleClearChat \<longrightarrow>
         resume i (s, tasks) = (run handleClearChat s, tasks[i := []])
         \<and> (\<forall>j. j \<noteq> i \<longrightarrow> snd (resume i (s, tasks)) ! j = tasks ! j))"
proof -
  have state: "run handleClearChat s =
      s\<lparr>messages := [],
        notifications :=
          notifications s @ [\<lparr>title = None, description = ''Chat history cleared'',
                               variant = None, duration = Some 2000\<rparr>]\<rparr>"
    by (simp add: handleClearChat_def)
  have loop: "resume i (s, tasks) = (run handleClearChat s, tasks[i := []])"
    if "i < length tasks" and "tasks ! i = handleClearChat"
    using that by (simp add: resume_def next_block_handleClearChat)
  have others: "snd (resume i (s, tasks)) ! j = tasks ! j" if "j \<noteq> i" for j
    using that by (simp add: resume_def case_prod_beta)
  from loop others show ?thesis
    unfolding state by simp
qed


text \<open>
  A question is submitted, the conversation is cleared while the answer is awaited, and the
  submission then goes on as it would have: its answer is appended to the cleared list.
\<close>

theorem clear_chat_witness:
  "schedule [0]
     (initial, [handleSendMessage (fault_injector 0 None ''F = ma'') ''hi'' None, handleClearChat])
     = (\<lparr>messages = [\<lparr>content = ''hi'', isUser = True, image_ref = None\<rparr>],
         isLoading = True, notifications = []\<rparr>,
        [[AwaitResponse,
          AppendMessage \<lparr>content = ''F = ma'', isUser = False, image_ref = None\<rparr>,
          SetIsLoading False],
         handleClearChat])
   \<and> schedule [0, 1]
     (initial, [handleSendMessage (fault_injector 0 None ''F = ma'') ''hi'' None, handleClearChat])
     = (\<lparr>messages = [], isLoading = True,
         notifications = [\<lparr>title = None, description = ''Chat history cleared'',
                            variant = None, duration = Some 2000\<rparr>]\<rparr>,
        [[AwaitResponse,
          AppendMessage \<lparr>content = ''F = ma'', isUser = False, image_ref = None\<rparr>,
          SetIsLoading False],
         []])
   \<and> messages (fst (schedule [0, 1, 0, 0]
     (initial, [handleSendMessage (fault_injector 0 None ''F = ma'') ''hi'' None, handleClearChat])))
     = [\<lparr>content = ''F = ma'', isUser = False, image_ref = None\<rparr>]"
proof -
  let ?A = "handleSendMessage (fault_injector 0 None ''F = ma'') ''hi'' None"
  let ?s = "\<lparr>messages = [\<lparr>content = ''hi'', isUser = True, image_ref = None\<rparr>],
         isLoading = True, notifications = []\<rparr>"
  let ?rest = "[AwaitResponse,
          AppendMessage \<lparr>content = ''F = ma'', isUser = False, image_ref = None\<rparr>,
          SetIsLoading False]"
  let ?s' = "\<lparr>messages = [], isLoading = True,
         notifications = [\<lparr>title = None, description = ''Chat history cleared'',
                            variant = None, duration = Some 2000\<rparr>]\<rparr>"
  have tr: "?A =
      [SetIsLoading True,
       AppendMessage \<lparr>content = ''hi'', isUser = True, image_ref = None\<rparr>,
       GenerateContent gemini_pro (Prompt ''hi'')] @ ?rest"
    by (simp add: handleSendMessage_def try_block_def encode_image_def retry_loop.simps
        fault_injector_def request_of_def user_message_def assistant_message_def)
  have a: "schedule [0] (initial, [?A, handleClearChat]) = (?s, [?rest, handleClearChat])"
    unfolding tr by (simp add: resume_def initial_def)
  have h: "1 < length [?rest, handleClearChat] \<and> [?rest, handleClearChat] ! 1 = handleClearChat"
    by simp
  note r = clear_chat [of ?s 1 "[?rest, handleClearChat]"]
  from r h have step: "resume 1 (?s, [?rest, handleClearChat]) =
      (run handleClearChat ?s, [?rest, handleClearChat][1 := []])"
    by blast
  from r have m: "messages (run handleClearChat ?s) = []"
    and l: "isLoading (run handleClearChat ?s) = isLoading ?s"
    and n: "notifications (run handleClearChat ?s) =
       notifications ?s @ [\<lparr>title = None, description = ''Chat history cleared'',
                            variant = None, duration = Some 2000\<rparr>]"
    by blast+
  from m l n have s': "run handleClearChat ?s = ?s'"
    by simp
  have b: "schedule [0, 1] (initial, [?A, handleClearChat]) = (?s', [?rest, []])"
    using a step s' by simp
  have "schedule [0, 1, 0, 0] (initial, [?A, handleClearChat]) =
      schedule [0, 0] (schedule [0, 1] (initial, [?A, handleClearChat]))"
    by simp
  also have "\<dots> = schedule [0, 0] (?s', [?rest, []])" by (simp only: b)
  finally have c: "messages (fst (schedule [0, 1, 0, 0] (initial, [?A, handleClearChat]))) =
      [\<lparr>content = ''F = ma'', isUser = False, image_ref = None\<rparr>]"
    by (simp add: resume_def)
  from a b c show ?thesis by blast
qed


text \<open>
  Claim C5, as stated, fails for the same reason as claim C1: the call of the one
  submission below resolves, the text of its result cannot be read, and the conversation
  grows by the user message alone.
\<close>

theorem resolved_unreadable_length_counterexample:
  "readable blocked None
   \<and> is_resolved (answer blocked ''hi'' None 0)
   \<and> messages (submit_all [(blocked, ''hi'', None)] initial)
       = [\<lparr>content = ''hi'', isUser = True, image_ref = None\<rparr>]
   \<and> length (messages (submit_all [(blocked, ''hi'', None)] initial)) = 1"
  by (simp add: task_def handleSendMessage_def try_block_def encode_image_def retry_loop.simps
      blocked_def request_of_def user_message_def error_toast_def readable_def answer_def
      sent_def encoded_def initial_def is_resolved_def)

text \<open>
  Claim C5, amended. Let every submission of a list reach the model and be answered within
  its three attempts with a text that can be read. Made one after the other from any view
  state, the submissions add to the conversation, in order, one user message and then one
  assistant message each, the assistant message without image reference: the
  conversation grows by twice the number of submissions. When the submissions overlap, in
  whatever order the event loop resumes them, then once all have settled the conversation
  has grown by the same number of messages, the messages added are the pairs of the
  submissions woven together, each user message before the answer to it, and the
  assistant messages stand in the order in which the submissions settled.
\<close>

theorem conversation_length:
  assumes "\<forall>(e, query, img)\<in>set subs. succeeds e query img"
  shows "length (messages (submit_all subs s)) = length (messages s) + 2 * length subs
   \<and> messages (submit_all subs s) =
       messages s @ concat (map (\<lambda>sub. appended (task sub)) subs)
   \<and> (\<forall>sub\<in>set subs. \<exists>u a. appended (task sub) = [u, a]
          \<and> isUser u \<and> \<not> isUser a \<and> image_ref a = None)
   \<and> (\<forall>sched. (\<forall>t\<in>set (snd (schedule sched (s, map task subs))). t = []) \<longrightarrow>
          length (messages (fst (schedule sched (s, map task subs))))
            = length (messages s) + 2 * length subs
          \<and> (\<exists>ms. messages (fst (schedule sched (s, map task subs))) = messages s @ ms
                \<and> weave (map (\<lambda>sub. appended (task sub)) subs) ms (map (\<lambda>sub. []) subs))
          \<and> filter (\<lambda>m. \<not> isUser m) (messages (fst (schedule sched (s, map task subs))))
              = filter (\<lambda>m. \<not> isUser m) (messages s)
                @ map (\<lambda>i. last (appended (task (subs ! i))))
                    (completion_order sched (map task subs)))"
proof -
  have ok: "succeeds e query img" if "(e, query, img) \<in> set subs" for e query img
    using that assms by blast
  have each: "\<exists>u a. appended (task sub) = [u, a] \<and> isUser u \<and> \<not> isUser a \<and> image_ref a = None"
    if "sub \<in> set subs" for sub
  proof -
    obtain e query img where sub: "sub = (e, query, img)" by (cases sub)
    with that have "succeeds e query img" by (simp add: ok)
    then obtain reply
      where "appended (handleSendMessage e query img) =
        [user_message query (preview e img), assistant_message reply]"
      using appended_of_success by blast
    then show ?thesis
      unfolding sub by (simp add: task_def user_message_def assistant_message_def)
  qed
  then have two: "length (appended (task sub)) = 2" if "sub \<in> set subs" for sub
    using that by fastforce
  have total: "sum_list (map (\<lambda>sub. length (appended (task sub))) subs) = 2 * length subs"
    using two by (intro sum_list_constant) simp
  have seq: "messages (submit_all subs s) =
       messages s @ concat (map (\<lambda>sub. appended (task sub)) subs)"
    by (rule messages_submit_all)
  have len: "length (messages (submit_all subs s)) = length (messages s) + 2 * length subs"
    unfolding seq using total by (simp add: length_concat comp_def)
  have nc: "\<forall>t\<in>set (map task subs). ClearMessages \<notin> set t"
    by (simp add: no_clear_task)
  have any: "length (messages (fst (schedule sched (s, map task subs))))
            = length (messages s) + 2 * length subs
          \<and> (\<exists>ms. messages (fst (schedule sched (s, map task subs))) = messages s @ ms
                \<and> weave (map (\<lambda>sub. appended (task sub)) subs) ms (map (\<lambda>sub. []) subs))
          \<and> filter (\<lambda>m. \<not> isUser m) (messages (fst (schedule sched (s, map task subs))))
              = filter (\<lambda>m. \<not> isUser m) (messages s)
                @ map (\<lambda>i. last (appended (task (subs ! i))))
                    (completion_order sched (map task subs))"
    if settled: "\<forall>t\<in>set (snd (schedule sched (s, map task subs))). t = []" for sched
  proof -
    let ?final = "snd (schedule sched (s, map task subs))"
    have "\<forall>t\<in>set ?final. length (appended t) = 0"
      using settled by auto
    then have zero: "sum_list (map (\<lambda>t. length (appended t)) ?final) = 0"
      by (simp add: sum_list_constant)
    from length_messages_schedule [OF nc, of sched s] zero total
    have count: "length (messages (fst (schedule sched (s, map task subs))))
            = length (messages s) + 2 * length subs"
      by (simp add: comp_def)
    have "length ?final = length subs" by (simp add: length_schedule)
    moreover have "\<forall>t\<in>set ?final. appended t = []" using settled by auto
    ultimately have "map appended ?final = replicate (length subs) []"
      by (intro map_constant) simp_all
    then have empty: "map appended ?final = map (\<lambda>sub. []) subs"
      by (simp only: map_replicate_const)
    from weave_schedule [OF nc, of sched s] obtain ms
      where "messages (fst (schedule sched (s, map task subs))) = messages s @ ms"
        and "weave (map appended (map task subs)) ms (map appended ?final)"
      by blast
    then have woven: "\<exists>ms. messages (fst (schedule sched (s, map task subs))) = messages s @ ms
        \<and> weave (map (\<lambda>sub. appended (task sub)) subs) ms (map (\<lambda>sub. []) subs)"
      unfolding empty by (auto simp: comp_def)
    let ?as = "map (\<lambda>sub. last (appended (task sub))) subs"
    have l: "length ?as = length (map task subs)" by simp
    have pend: "\<forall>i<length (map task subs).
        map task subs ! i = [] \<or> answers_last (?as ! i) (map task subs ! i)"
      and nu: "\<forall>i<length (map task subs). \<not> isUser (?as ! i)"
    proof -
      have "answers_last (?as ! i) (map task subs ! i) \<and> \<not> isUser (?as ! i)"
        if i: "i < length subs" for i
      proof -
        obtain e query img where sub: "subs ! i = (e, query, img)" by (cases "subs ! i")
        with i have "(e, query, img) \<in> set subs" by (metis nth_mem)
        then have "succeeds e query img" by (rule ok)
        from answers_last_of_success [OF this] i sub show ?thesis
          by (simp add: task_def)
      qed
      then show "\<forall>i<length (map task subs).
          map task subs ! i = [] \<or> answers_last (?as ! i) (map task subs ! i)"
        and "\<forall>i<length (map task subs). \<not> isUser (?as ! i)"
        by simp_all
    qed
    have "map (\<lambda>i. ?as ! i) (completion_order sched (map task subs)) =
        map (\<lambda>i. last (appended (task (subs ! i)))) (completion_order sched (map task subs))"
      using completion_order_bound [of sched "map task subs"] by simp
    with answers_in_completion_order [OF l pend nu nc, of sched s]
    have order: "filter (\<lambda>m. \<not> isUser m) (messages (fst (schedule sched (s, map task subs))))
              = filter (\<lambda>m. \<not> isUser m) (messages s)
                @ map (\<lambda>i. last (appended (task (subs ! i))))
                    (completion_order sched (map task subs))"
      by simp
    from count woven order show ?thesis by blast
  qed
  from len seq each any show ?thesis by blast
qed


text \<open>
  A text question, and an image answered after one rate-limited rejection: in sequence, and
  overlapping so that the image, submitted second, is answered first.
\<close>

theorem conversation_length_witness:
  "succeeds (fault_injector 0 None ''F = ma'') ''What is Newton's second law?'' None
   \<and> succeeds (fault_injector 1 (Some 429) ''a cat'') [] (Some photo)
   \<and> messages (submit_all
         [(fault_injector 0 None ''F = ma'', ''What is Newton's second law?'', None),
          (fault_injector 1 (Some 429) ''a cat'', [], Some photo)] initial)
     = [\<lparr>content = ''What is Newton's second law?'', isUser = True, image_ref = None\<rparr>,
        \<lparr>content = ''F = ma'', isUser = False, image_ref = None\<rparr>,
        \<lparr>content = ''Image analysis request'', isUser = True,
           image_ref = Some ''blob:photo.png''\<rparr>,
        \<lparr>content = ''a cat'', isUser = False, image_ref = None\<rparr>]
   \<and> snd (schedule [0, 1, 1, 1, 1, 1, 1, 0, 0]
         (initial,
          map task
            [(fault_injector 0 None ''F = ma'', ''What is Newton's second law?'', None),
             (fault_injector 1 (Some 429) ''a cat'', [], Some photo)]))
     = [[], []]
   \<and> completion_order [0, 1, 1, 1, 1, 1, 1, 0, 0]
         (map task
            [(fault_injector 0 None ''F = ma'', ''What is Newton's second law?'', None),
             (fault_injector 1 (Some 429) ''a cat'', [], Some photo)])
     = [1, 0]
   \<and> length (messages (fst (schedule [0, 1, 1, 1, 1, 1, 1, 0, 0]
         (initial,
          map task
            [(fault_injector 0 None ''F = ma'', ''What is Newton's second law?'', None),
             (fault_injector 1 (Some 429) ''a cat'', [], Some photo)]))))
     = 4
   \<and> filter (\<lambda>m. \<not> isUser m) (messages (fst (schedule [0, 1, 1, 1, 1, 1, 1, 0, 0]
         (initial,
          map task
            [(fault_injector 0 None ''F = ma'', ''What is Newton's second law?'', None),
             (fault_injector 1 (Some 429) ''a cat'', [], Some photo)]))))
     = [\<lparr>content = ''a cat'', isUser = False, image_ref = None\<rparr>,
        \<lparr>content = ''F = ma'', isUser = False, image_ref = None\<rparr>]
   \<and> messages (fst (schedule [0, 1, 1, 1, 1, 1, 1, 0, 0]
         (initial,
          map task
            [(fault_injector 0 None ''F = ma'', ''What is Newton's second law?'', None),
             (fault_injector 1 (Some 429) ''a cat'', [], Some photo)])))
     = [\<lparr>content = ''What is Newton's second law?'', isUser = True, image_ref = None\<rparr>,
        \<lparr>content = ''Image analysis request'', isUser = True,
           image_ref = Some ''blob:photo.png''\<rparr>,
        \<lparr>content = ''a cat'', isUser = False, image_ref = None\<rparr>,
        \<lparr>content = ''F = ma'', isUser = False, image_ref = None\<rparr>]"
proof -
  let ?w1 = "fault_injector 0 None ''F = ma''"
  let ?w2 = "fault_injector 1 (Some 429) ''a cat''"
  let ?q = "''What is Newton's second law?''"
  let ?subs = "[(?w1, ?q, None), (?w2, [], Some photo)]"
  let ?sched = "[0, 1, 1, 1, 1, 1, 1, 0, 0] :: nat list"
  have s1: "succeeds ?w1 ?q None"
    by (simp add: succeeds_def readable_def answer_def delivers_def fault_injector_def)
  have s2: "succeeds ?w2 [] (Some photo)"
    by (simp add: succeeds_def readable_def answer_def delivers_def rate_limited_def
        convertImageToBase64_def fault_injector_def)
  have h: "\<forall>(e, query, img)\<in>set ?subs. succeeds e query img"
    using s1 s2 by simp
  have t1: "task (?w1, ?q, None) =
      [SetIsLoading True,
       AppendMessage \<lparr>content = ?q, isUser = True, image_ref = None\<rparr>,
       GenerateContent gemini_pro (Prompt ?q),
       AwaitResponse,
       AppendMessage \<lparr>content = ''F = ma'', isUser = False, image_ref = None\<rparr>,
       SetIsLoading False]"
    by (simp add: task_def handleSendMessage_def try_block_def encode_image_def
        retry_loop.simps fault_injector_def request_of_def user_message_def
        assistant_message_def)
  have t2: "task (?w2, [], Some photo) =
      [SetIsLoading True, CreateObjectURL photo, ReadAsDataURL photo,
       AppendMessage \<lparr>content = ''Image analysis request'', isUser = True,
          image_ref = Some ''blob:photo.png''\<rparr>,
       GenerateContent gemini_pro
         (InlineDataPrompt (Some ''iVBORw0KGgo='') ''image/png'' ''Please analyze this image''),
       Delay 2000,
       GenerateContent gemini_pro
         (InlineDataPrompt (Some ''iVBORw0KGgo='') ''image/png'' ''Please analyze this image''),
       AwaitResponse,
       AppendMessage \<lparr>content = ''a cat'', isUser = False, image_ref = None\<rparr>,
       SetIsLoading False]"
    by (simp add: task_def handleSendMessage_def try_block_def encode_image_def
        retry_loop.simps fault_injector_def request_of_def user_message_def
        assistant_message_def convertImageToBase64_def photo_def at_index_def)
  note r = conversation_length [OF h, of initial]
  from r have seq: "messages (submit_all ?subs initial) =
      messages initial @ concat (map (\<lambda>sub. appended (task sub)) ?subs)"
    by blast
  have seq': "messages initial @ concat (map (\<lambda>sub. appended (task sub)) ?subs) =
       [\<lparr>content = ?q, isUser = True, image_ref = None\<rparr>,
        \<lparr>content = ''F = ma'', isUser = False, image_ref = None\<rparr>,
        \<lparr>content = ''Image analysis request'', isUser = True,
           image_ref = Some ''blob:photo.png''\<rparr>,
        \<lparr>content = ''a cat'', isUser = False, image_ref = None\<rparr>]"
    unfolding list.map t1 t2 by (simp add: initial_def)
  have run: "schedule ?sched (initial, map task ?subs) =
      (\<lparr>messages =
          [\<lparr>content = ?q, isUser = True, image_ref = None\<rparr>,
           \<lparr>content = ''Image analysis request'', isUser = True,
              image_ref = Some ''blob:photo.png''\<rparr>,
           \<lparr>content = ''a cat'', isUser = False, image_ref = None\<rparr>,
           \<lparr>content = ''F = ma'', isUser = False, image_ref = None\<rparr>],
        isLoading = False, notifications = []\<rparr>,
       [[], []])"
    unfolding list.map t1 t2 by (simp add: resume_def initial_def)
  have order: "completion_order ?sched (map task ?subs) = [1, 0]"
    unfolding list.map t1 t2 by simp
  from run have settled: "\<forall>t\<in>set (snd (schedule ?sched (initial, map task ?subs))). t = []"
    by simp
  from r settled have "length (messages (fst (schedule ?sched (initial, map task ?subs))))
      = length (messages initial) + 2 * length ?subs"
    by blast
  then have len: "length (messages (fst (schedule ?sched (initial, map task ?subs)))) = 4"
    by (simp add: initial_def)
  have idx: "map (\<lambda>i. last (appended (task (?subs ! i)))) [1, 0] =
      [last (appended (task (?w2, [], Some photo))), last (appended (task (?w1, ?q, None)))]"
    by simp
  have vals: "[last (appended (task (?w2, [], Some photo))),
       last (appended (task (?w1, ?q, None)))] =
      [\<lparr>content = ''a cat'', isUser = False, image_ref = None\<rparr>,
       \<lparr>content = ''F = ma'', isUser = False, image_ref = None\<rparr>]"
    unfolding t1 t2 by simp
  from r settled
  have "filter (\<lambda>m. \<not> isUser m) (messages (fst (schedule ?sched (initial, map task ?subs))))
      = filter (\<lambda>m. \<not> isUser m) (messages initial)
        @ map (\<lambda>i. last (appended (task (?subs ! i)))) (completion_order ?sched (map task ?subs))"
    by blast
  then have answers: "filter (\<lambda>m. \<not> isUser m)
        (messages (fst (schedule ?sched (initial, map task ?subs))))
      = [\<lparr>content = ''a cat'', isUser = False, image_ref = None\<rparr>,
         \<lparr>content = ''F = ma'', isUser = False, image_ref = None\<rparr>]"
    unfolding order idx vals by (simp add: initial_def)
  from run have tasks: "snd (schedule ?sched (initial, map task ?subs)) = [[], []]"
    and msgs: "messages (fst (schedule ?sched (initial, map task ?subs))) =
          [\<lparr>content = ?q, isUser = True, image_ref = None\<rparr>,
           \<lparr>content = ''Image analysis request'', isUser = True,
              image_ref = Some ''blob:photo.png''\<rparr>,
           \<lparr>content = ''a cat'', isUser = False, image_ref = None\<rparr>,
           \<lparr>content = ''F = ma'', isUser = False, image_ref = None\<rparr>]"
    by simp_all
  from s1 s2 seq seq' tasks order len answers msgs show ?thesis by simp
qed

end
